theory Spec2Isabelle
  imports Complex_Main "HOL-Library.Word" "HOL-Library.Multiset" "HOL-Library.Monad_Syntax"
    "HOL-Library.AList"
begin

section \<open>Conventions of the embedding\<close>

text \<open>
  The repository holds three trees: the density-guided \<open>ConvTree\<close> of \<open>conv-tree.go\<close>
  (lesser Y is the top edge), a second \<open>ConvTree\<close> source whose file name is not known
  (greater Y is the top edge; it adds the baseline tags), and the midpoint \<open>QuadTree\<close> of
  \<open>quad-tree.go\<close>. Functions of the second ConvTree source carry the suffix \<open>2\<close>, those of
  the QuadTree the suffix \<open>_q\<close>; \<open>convolve\<close>, \<open>normalizeGrid\<close>, \<open>getSplitPoint\<close> and
  \<open>checkKernel\<close> are the same text in both ConvTree sources and are modelled once.

  \<^item> \<open>float64\<close> is modelled by \<open>real\<close>: the values are the finite numbers, comparisons
    are exact as they are in Go, and arithmetic is exact where Go rounds; there is no
    infinity or NaN. Where Go divides by zero the text says so. A statement that depends
    on the result of an arithmetic operation is made either for operands on which
    \<open>float64\<close> computes that result exactly (\<open>onGrid\<close>), or for every result the operation
    may have (the parameters \<open>wide\<close> and \<open>cutAt\<close> of \<open>splitBy\<close>); all other statements are
    about control flow, integers and comparisons.
  \<^item> \<open>Weight\<close> and \<open>MaxPoints\<close> are Go \<open>int\<close>, modelled as \<open>64 word\<close>: sums wrap around
    and comparisons are signed. Indices, sizes, depths and loop counters are \<open>int\<close>; none
    of the additions on them can leave the 64-bit range (\<open>Depth + 1\<close> is only computed
    under \<open>Depth < MaxDepth\<close>).
  \<^item> A run-time panic (index out of range, nil dereference, negative length) is the
    value \<open>None\<close> of a helper and \<open>Inl Panic\<close> of a function that can also return a
    Go \<open>error\<close>; a returned \<open>error\<close> is \<open>Inl (Error msg)\<close>.
  \<^item> Node identifiers come from a random UUID generator and are left out, as is the
    \<open>Stats\<close> field of \<open>conv-tree.go\<close>, which no function reads or writes.
\<close>

datatype error = Error string | Panic

datatype content = NoContent | Tags "string list" | Other

text \<open>
  Modelled from the spec: the \<open>Point\<close> struct, whose declaration is not among the source
  files. The spec gives \<open>{X, Y: real; Weight: integer; Content: opaque payload, optionally
  a set of tag strings}\<close>; the code compares \<open>X\<close> and \<open>Y\<close> with \<open>float64\<close>, adds \<open>Weight\<close> to
  an \<open>int\<close>, and tests \<open>Content\<close> against \<open>nil\<close> and the dynamic type \<open>[]string\<close>.
\<close>

record Point =
  X :: real
  Y :: real
  Weight :: "64 word"
  Content :: content

type_synonym grid = "real list list"

subsection \<open>Slices, loops and integer division\<close>

definition len :: "'a list \<Rightarrow> int" where
  "len xs = int (length xs)"

definition getAt :: "'a list \<Rightarrow> int \<Rightarrow> 'a option" where
  "getAt xs i = (if 0 \<le> i \<and> i < len xs then Some (xs ! nat i) else None)"

definition setAt :: "'a list \<Rightarrow> int \<Rightarrow> 'a \<Rightarrow> 'a list option" where
  "setAt xs i v = (if 0 \<le> i \<and> i < len xs then Some (xs[nat i := v]) else None)"

definition cell :: "grid \<Rightarrow> int \<Rightarrow> int \<Rightarrow> real option" where
  "cell g i j = (case getAt g i of None \<Rightarrow> None | Some row \<Rightarrow> getAt row j)"

definition makeSlice :: "int \<Rightarrow> 'a \<Rightarrow> 'a list option" where
  "makeSlice n z = (if n < 0 then None else Some (replicate (nat n) z))"

primrec foldM :: "('a \<Rightarrow> 's \<Rightarrow> 's option) \<Rightarrow> 'a list \<Rightarrow> 's \<Rightarrow> 's option" where
  "foldM f [] s = Some s"
| "foldM f (x # xs) s = (case f x s of None \<Rightarrow> None | Some s' \<Rightarrow> foldM f xs s')"

text \<open>\<open>for i := a; i < b; i++ { body }\<close>\<close>

definition forRange :: "int \<Rightarrow> int \<Rightarrow> (int \<Rightarrow> 's \<Rightarrow> 's option) \<Rightarrow> 's \<Rightarrow> 's option" where
  "forRange a b body s = foldM body [a..b - 1] s"

text \<open>Go's integer division truncates towards zero.\<close>

definition quot :: "int \<Rightarrow> int \<Rightarrow> int" where
  "quot a b = sgn a * sgn b * (\<bar>a\<bar> div \<bar>b\<bar>)"

section \<open>Grid and convolution engine\<close>

text \<open>\<open>mean\<close> of an empty slice is \<open>0/0\<close>, NaN in Go and \<open>0\<close> here.\<close>

definition mean :: "real list \<Rightarrow> real" where
  "mean in' = fold (\<lambda>v sum. sum + v) in' 0 / real (length in')"

definition MaxFloat64 :: real where
  "MaxFloat64 = 2 ^ 1024 - 2 ^ 971"

text \<open>The same number as a numeral, for evaluation.\<close>

lemma MaxFloat64_numeral [code]:
  "MaxFloat64 =
     179769313486231570814527423731704356798070567525844996598917476803157260780028538760589558632766878171540458953514382464234321326889464182768467546703537516986049910576551282076245490090389328944075868508455133942304583236903222948165808559332123348274797826204144723168738177180919299881250404026184124858368"
  by (simp add: MaxFloat64_def)

definition gridMax :: "grid \<Rightarrow> real \<Rightarrow> real option" where
  "gridMax grid m0 =
     forRange 0 (len grid) (\<lambda>i m. do {
       r0 \<leftarrow> getAt grid 0;
       forRange 0 (len r0) (\<lambda>j m. do {
         v \<leftarrow> cell grid i j;
         Some (if v > m then v else m) }) m }) m0"

text \<open>
  \<open>normalizeGrid\<close> overwrites the grid in place and returns it. A maximum of zero makes
  Go divide by zero (NaN or an infinity in every cell); HOL's \<open>v / 0\<close> is \<open>0\<close>.
\<close>

definition normalizeGrid :: "grid \<Rightarrow> grid option" where
  "normalizeGrid grid = do {
     maxValue \<leftarrow> gridMax grid (- MaxFloat64);
     forRange 0 (len grid) (\<lambda>i g. do {
       r0 \<leftarrow> getAt g 0;
       forRange 0 (len r0) (\<lambda>j g. do {
         v \<leftarrow> cell g i j;
         row \<leftarrow> getAt g i;
         row' \<leftarrow> setAt row j (v / maxValue);
         setAt g i row' }) g }) grid }"

text \<open>The three loops of \<open>convolve\<close> that build the padded grid \<open>procGrid\<close>.\<close>

definition padTop :: "grid \<Rightarrow> int \<Rightarrow> real list list \<Rightarrow> real list list option" where
  "padTop grid padding procGrid =
     forRange 0 padding (\<lambda>i pg. do {
       row \<leftarrow> makeSlice (len grid + 2 * padding) 0;
       setAt pg i row }) procGrid"

definition padMiddle :: "grid \<Rightarrow> int \<Rightarrow> real list list \<Rightarrow> real list list option" where
  "padMiddle grid padding procGrid =
     forRange 1 (len procGrid - 1) (\<lambda>i pg. do {
       row \<leftarrow> makeSlice (len grid + 2 * padding) 0;
       row \<leftarrow> setAt row 0 0;
       row \<leftarrow> forRange 1 (len row - 1) (\<lambda>j row. do {
                v \<leftarrow> cell grid (i - padding) (j - padding);
                setAt row j v }) row;
       row \<leftarrow> setAt row (len row - 1) 0;
       setAt pg i row }) procGrid"

definition padBottom :: "grid \<Rightarrow> int \<Rightarrow> real list list \<Rightarrow> real list list option" where
  "padBottom grid padding procGrid =
     forRange 0 padding (\<lambda>i pg. do {
       row \<leftarrow> makeSlice (len grid + 2 * padding) 0;
       setAt pg (len pg - i - 1) row }) procGrid"

definition convTotal :: "grid \<Rightarrow> grid \<Rightarrow> int \<Rightarrow> int \<Rightarrow> int \<Rightarrow> int \<Rightarrow> real option" where
  "convTotal procGrid kernel' stride kernelSize i j =
     forRange 0 kernelSize (\<lambda>x total.
       forRange 0 kernelSize (\<lambda>y total.
         let posX = stride * i + x; posY = stride * j + y in
         if posX \<ge> 0 \<and> posX < len procGrid \<and> posY \<ge> 0 then do {
           p0 \<leftarrow> getAt procGrid 0;
           if posY < len p0 then do {
             a \<leftarrow> cell procGrid posX posY;
             b \<leftarrow> cell kernel' x y;
             Some (total + a * b) }
           else Some total }
         else Some total) total) 0"

definition convResult :: "grid \<Rightarrow> grid \<Rightarrow> int \<Rightarrow> int \<Rightarrow> int \<Rightarrow> int \<Rightarrow> grid option" where
  "convResult procGrid kernel' stride kernelSize resultWidth resultHeight = do {
     result \<leftarrow> makeSlice resultWidth [];
     forRange 0 resultWidth (\<lambda>i result. do {
       row \<leftarrow> makeSlice resultHeight 0;
       row \<leftarrow> forRange 0 resultHeight (\<lambda>j row. do {
                total \<leftarrow> convTotal procGrid kernel' stride kernelSize i j;
                setAt row j total }) row;
       setAt result i row }) result }"

definition convBody :: "grid \<Rightarrow> grid \<Rightarrow> int \<Rightarrow> int \<Rightarrow> grid option" where
  "convBody grid kernel' stride padding = do {
     g0 \<leftarrow> getAt grid 0;
     procGrid \<leftarrow> makeSlice (len grid + 2 * padding) [];
     procGrid \<leftarrow> padTop grid padding procGrid;
     procGrid \<leftarrow> padMiddle grid padding procGrid;
     procGrid \<leftarrow> padBottom grid padding procGrid;
     convResult procGrid kernel' stride (len kernel')
       (quot (len grid - len kernel' + 2 * padding) stride + 1)
       (quot (len g0 - len kernel' + 2 * padding) stride + 1) }"

definition convolve :: "grid \<Rightarrow> grid \<Rightarrow> int \<Rightarrow> int \<Rightarrow> error + grid" where
  "convolve grid kernel' stride padding =
     (if stride < 1 then Inl (Error ''convolutional stride must be larger than 0'')
      else if padding < 1 then Inl (Error ''convolutional padding must be larger than 0'')
      else if len grid < len kernel'
        then Inl (Error ''grid width is less than convolutional kernel size'')
      else case getAt grid 0 of
        None \<Rightarrow> Inl Panic
      | Some g0 \<Rightarrow>
          if len g0 < len kernel'
            then Inl (Error ''grid height is less than convolutional kernel size'')
          else case convBody grid kernel' stride padding of
            None \<Rightarrow> Inl Panic
          | Some result \<Rightarrow> Inr result)"

section \<open>Split-point search\<close>

definition findMax :: "grid \<Rightarrow> (int \<times> int \<times> real) option" where
  "findMax grid =
     forRange 0 (len grid) (\<lambda>i st. do {
       r0 \<leftarrow> getAt grid 0;
       forRange 0 (len r0) (\<lambda>j (maxX, maxY, maxValue). do {
         v \<leftarrow> cell grid i j;
         Some (if v > maxValue then (i, j, v) else (maxX, maxY, maxValue)) }) st })
     (0, 0, 0)"

text \<open>
  The state of one pass of the search loop is \<open>(itemFound, x, y, vals)\<close>. The four scans
  are the four \<open>if\<close> blocks of the loop body, in the order of the source.
\<close>

type_synonym scan = "bool \<times> int \<times> int \<times> real list"

definition scanLeft :: "grid \<Rightarrow> int \<Rightarrow> int \<Rightarrow> int \<Rightarrow> real \<Rightarrow> scan \<Rightarrow> scan option" where
  "scanLeft grid maxX maxY counter splitValue st =
     (let i = maxX - counter in
      if i \<ge> 0 then
        forRange (maxY - counter) (maxY + counter + 1) (\<lambda>j (itemFound, x, y, vals).
          if j \<ge> 0 then do {
            r0 \<leftarrow> getAt grid 0;
            if j < len r0 then do {
              v \<leftarrow> cell grid i j;
              Some (if v > splitValue then (True, i, y, vals @ [v])
                    else (itemFound, x, y, vals)) }
            else Some (itemFound, x, y, vals) }
          else Some (itemFound, x, y, vals)) st
      else Some st)"

definition scanRight :: "grid \<Rightarrow> int \<Rightarrow> int \<Rightarrow> int \<Rightarrow> real \<Rightarrow> scan \<Rightarrow> scan option" where
  "scanRight grid maxX maxY counter splitValue st =
     (let i = maxX + counter in
      if i < len grid then
        forRange (maxY - counter) (maxY + counter + 1) (\<lambda>j (itemFound, x, y, vals).
          if j \<ge> 0 then do {
            r0 \<leftarrow> getAt grid 0;
            if j < len r0 then do {
              v \<leftarrow> cell grid i j;
              Some (if v > splitValue
                    then (True,
                          if \<bar>real_of_int (x - quot (len grid) 2)\<bar>
                               > \<bar>real_of_int (i - quot (len grid) 2)\<bar> then i else x,
                          y, vals @ [v])
                    else (itemFound, x, y, vals)) }
            else Some (itemFound, x, y, vals) }
          else Some (itemFound, x, y, vals)) st
      else Some st)"

definition scanTop :: "grid \<Rightarrow> int \<Rightarrow> int \<Rightarrow> int \<Rightarrow> real \<Rightarrow> scan \<Rightarrow> scan option" where
  "scanTop grid maxX maxY counter splitValue st =
     (let i = maxY - counter in
      if i \<ge> 0 then
        forRange (maxX - counter) (maxX + counter + 1) (\<lambda>j (itemFound, x, y, vals).
          if j \<ge> 0 \<and> j < len grid then do {
            v \<leftarrow> cell grid j i;
            Some (if v > splitValue
                  then (True, x, i,
                        if j \<noteq> maxX - counter \<and> j \<noteq> maxX + counter then vals @ [v] else vals)
                  else (itemFound, x, y, vals)) }
          else Some (itemFound, x, y, vals)) st
      else Some st)"

definition scanBottom :: "grid \<Rightarrow> int \<Rightarrow> int \<Rightarrow> int \<Rightarrow> real \<Rightarrow> scan \<Rightarrow> scan option" where
  "scanBottom grid maxX maxY counter splitValue st = do {
     g0 \<leftarrow> getAt grid 0;
     let i = maxY + counter in
     if i < len g0 then
       forRange (maxX - counter) (maxX + counter + 1) (\<lambda>j (itemFound, x, y, vals).
         if j \<ge> 0 \<and> j < len grid then do {
           v \<leftarrow> cell grid j i;
           r0 \<leftarrow> getAt grid 0;
           Some (if v > splitValue
                 then (True, x,
                       if \<bar>real_of_int (y - quot (len r0) 2)\<bar>
                            > \<bar>real_of_int (i - quot (len r0) 2)\<bar> then i else y,
                       if j \<noteq> maxX - counter \<and> j \<noteq> maxX + counter then vals @ [v] else vals)
                 else (itemFound, x, y, vals)) }
         else Some (itemFound, x, y, vals)) st
     else Some st }"

definition scanRings :: "grid \<Rightarrow> int \<Rightarrow> int \<Rightarrow> int \<Rightarrow> real \<Rightarrow> scan option" where
  "scanRings grid maxX maxY counter splitValue = do {
     st \<leftarrow> scanLeft grid maxX maxY counter splitValue (False, 0, 0, []);
     st \<leftarrow> scanRight grid maxX maxY counter splitValue st;
     st \<leftarrow> scanTop grid maxX maxY counter splitValue st;
     scanBottom grid maxX maxY counter splitValue st }"

text \<open>
  The unbounded \<open>for { ... }\<close> loop. \<open>None\<close> is a call that does not return: it panics on
  an index out of range or it runs forever.
\<close>

partial_function (option) searchLoop ::
  "grid \<Rightarrow> int \<Rightarrow> int \<Rightarrow> real \<Rightarrow> int \<Rightarrow> int \<Rightarrow> int \<Rightarrow> (int \<times> int) option" where
  "searchLoop grid maxX maxY splitValue counter splitX splitY =
     scanRings grid maxX maxY counter splitValue \<bind> (\<lambda>(itemFound, x, y, vals).
       if \<not> itemFound then Some (splitX, splitY)
       else searchLoop grid maxX maxY (mean vals * (8 / 10)) (counter + 1)
              (if x \<noteq> 0 then x else splitX) (if y \<noteq> 0 then y else splitY))"

declare searchLoop.simps [code]

definition getSplitPoint :: "grid \<Rightarrow> (int \<times> int) option" where
  "getSplitPoint grid = do {
     (maxX, maxY, maxValue) \<leftarrow> findMax grid;
     (splitX, splitY) \<leftarrow> searchLoop grid maxX maxY (maxValue * (8 / 10)) 1 0 0;
     Some (if splitX > maxX then splitX + 1 else splitX - 1,
           if splitY > maxY then splitY + 1 else splitY - 1) }"

text \<open>
  The kernel \<open>NewConvTree\<close> falls back to, and a 3 by 3 grid with the same value in every
  cell.
\<close>

definition defaultKernel :: grid where
  "defaultKernel = [[5 / 10, 5 / 10, 5 / 10], [5 / 10, 1, 5 / 10], [5 / 10, 5 / 10, 5 / 10]]"

definition flat3 :: "real \<Rightarrow> grid" where
  "flat3 v = [[v, v, v], [v, v, v], [v, v, v]]"

section \<open>Predicates used in the statements\<close>

text \<open>A grid is rectangular when every row is as long as the first.\<close>

definition rect :: "grid \<Rightarrow> bool" where
  "rect grid = (\<forall>row \<in> set grid. length row = length (hd grid))"

text \<open>The ranges in which \<open>findMax\<close> leaves the position of the maximum.\<close>

definition maxOK :: "grid \<Rightarrow> int \<Rightarrow> int \<Rightarrow> bool" where
  "maxOK grid maxX maxY =
     (0 \<le> maxX \<and> maxX < len grid \<and> 0 \<le> maxY \<and> (maxY < len (hd grid) \<or> maxY = 0))"

text \<open>A pass can only find an item while \<open>counter\<close> is below one of the grid sizes.\<close>

definition quiet :: "grid \<Rightarrow> int \<Rightarrow> scan \<Rightarrow> bool" where
  "quiet grid counter st = (fst st \<longrightarrow> counter < len grid \<or> counter < len (hd grid))"

definition ncols :: "grid \<Rightarrow> int" where
  "ncols grid = (case grid of [] \<Rightarrow> 0 | r0 # _ \<Rightarrow> len r0)"

text \<open>
  \<open>hitColumn\<close>: a cell of the vertical ring in column \<open>i\<close> exceeds the threshold;
  \<open>hitRow\<close>: a cell of the horizontal ring in row \<open>i\<close> does. \<open>nearer center a b\<close> is
  the one of \<open>a\<close>, \<open>b\<close> closer to \<open>center\<close>, and \<open>a\<close> when they are equally far.
\<close>

definition exceeds :: "grid \<Rightarrow> int \<Rightarrow> int \<Rightarrow> real \<Rightarrow> bool" where
  "exceeds grid i j splitValue = (case cell grid i j of None \<Rightarrow> False | Some v \<Rightarrow> v > splitValue)"

definition hitColumn :: "grid \<Rightarrow> int \<Rightarrow> int \<Rightarrow> int \<Rightarrow> real \<Rightarrow> bool" where
  "hitColumn grid i maxY counter splitValue =
     (0 \<le> i \<and> i < len grid \<and>
      (\<exists>j \<in> set [maxY - counter..maxY + counter]. 0 \<le> j \<and> j < ncols grid \<and> exceeds grid i j splitValue))"

definition hitRow :: "grid \<Rightarrow> int \<Rightarrow> int \<Rightarrow> int \<Rightarrow> real \<Rightarrow> bool" where
  "hitRow grid i maxX counter splitValue =
     (0 \<le> i \<and>
      (\<exists>j \<in> set [maxX - counter..maxX + counter]. 0 \<le> j \<and> j < len grid \<and> exceeds grid j i splitValue))"

definition nearer :: "int \<Rightarrow> int \<Rightarrow> int \<Rightarrow> int" where
  "nearer center a b = (if \<bar>b - center\<bar> < \<bar>a - center\<bar> then b else a)"

text \<open>A one-column-high grid whose maximum sits left of the centre.\<close>

definition ridge :: grid where
  "ridge = [[9 / 10], [1], [9 / 10], [0], [0]]"

section \<open>The density-guided tree of \<open>conv-tree.go\<close>\<close>

text \<open>
  One record holds the fields of a node other than its children. The second ConvTree
  source has the same fields; \<open>conv-tree.go\<close> keeps \<open>BaselineTags\<close> inside its \<open>Stats\<close>
  field, which its functions never touch, so both sources share the record. A \<open>nil\<close>
  slice and an empty slice are both the empty list.
\<close>

record Node =
  IsLeaf :: bool
  MaxPoints :: "64 word"
  MaxDepth :: int
  Depth :: int
  GridSize :: int
  ConvNum :: int
  Kernel :: grid
  Points :: "Point list"
  MinXLength :: real
  MinYLength :: real
  TopLeft :: Point
  BottomRight :: Point
  BaselineTags :: "string list"

datatype ConvTree =
  ConvTree (node: Node) (ChildTopLeft: "ConvTree option") (ChildTopRight: "ConvTree option")
    (ChildBottomLeft: "ConvTree option") (ChildBottomRight: "ConvTree option")

text \<open>A node without children, and the corner \<open>Point{X: x, Y: y}\<close>.\<close>

definition childless :: "Node \<Rightarrow> ConvTree" where
  "childless n = ConvTree n None None None None"

definition corner :: "real \<Rightarrow> real \<Rightarrow> Point" where
  "corner x y = \<lparr>X = x, Y = y, Weight = 0, Content = NoContent\<rparr>"

definition checkKernel :: "grid \<Rightarrow> bool" where
  "checkKernel kernel' =
     (if kernel' = [] then False
      else let xSize = length (hd kernel'); ySize = length kernel' in
        if xSize \<noteq> ySize then False
        else list_all (\<lambda>row. length row = xSize) kernel')"

definition checkSplit :: "Node \<Rightarrow> bool" where
  "checkSplit tree =
     (let cond1 = X (BottomRight tree) - X (TopLeft tree) > 2 * MinXLength tree
                  \<and> Y (BottomRight tree) - Y (TopLeft tree) > 2 * MinYLength tree;
          totalWeight = fold (\<lambda>point totalWeight. totalWeight + Weight point) (Points tree) 0;
          cond2 = sint totalWeight > sint (MaxPoints tree) \<and> Depth tree < MaxDepth tree
      in cond1 \<and> cond2)"

definition getNodeWeight :: "Node \<Rightarrow> real \<Rightarrow> real \<Rightarrow> real \<Rightarrow> real \<Rightarrow> 64 word" where
  "getNodeWeight tree xLeft xRight yTop yBottom =
     fold (\<lambda>point total.
             if X point \<ge> xLeft \<and> X point \<le> xRight \<and> Y point \<ge> yTop \<and> Y point \<le> yBottom
             then total + Weight point else total) (Points tree) 0"

definition filterSplitPoints :: "Node \<Rightarrow> Point \<Rightarrow> Point \<Rightarrow> Point list" where
  "filterSplitPoints tree topLeft bottomRight =
     filter (\<lambda>point. X point \<ge> X topLeft \<and> X point \<le> X bottomRight
                    \<and> Y point \<ge> Y topLeft \<and> Y point \<le> Y bottomRight) (Points tree)"

text \<open>
  The first loop of \<open>split\<close>: the grid of cell weights. With \<open>GridSize = 0\<close> the steps are
  a division by zero (an infinity in Go); the grid is then empty and \<open>getSplitPoint\<close>
  panics before a step is used.
\<close>

definition weightGrid :: "Node \<Rightarrow> grid option" where
  "weightGrid tree =
     (let xSize = GridSize tree; ySize = GridSize tree;
          xStep = (X (BottomRight tree) - X (TopLeft tree)) / real_of_int xSize;
          yStep = (Y (BottomRight tree) - Y (TopLeft tree)) / real_of_int ySize
      in do {
        grid \<leftarrow> makeSlice xSize [];
        forRange 0 xSize (\<lambda>i grid. do {
          row \<leftarrow> makeSlice ySize 0;
          row \<leftarrow> forRange 0 ySize (\<lambda>j row.
                   let xLeft = X (TopLeft tree) + real_of_int i * xStep;
                       xRight = X (TopLeft tree) + real_of_int (i + 1) * xStep;
                       yTop = Y (TopLeft tree) + real_of_int j * yStep;
                       yBottom = Y (TopLeft tree) + real_of_int (j + 1) * yStep
                   in setAt row j (real_of_int (sint (getNodeWeight tree xLeft xRight yTop yBottom))))
                 row;
          setAt grid i row }) grid })"

text \<open>
  The convolution loop of \<open>split\<close>, by the number of passes left: an \<open>error\<close> of \<open>convolve\<close>
  is printed and ends the loop with the grid of the pass before.
\<close>

fun convLoop :: "nat \<Rightarrow> grid \<Rightarrow> grid \<Rightarrow> grid option" where
  "convLoop 0 kernel' convolved = Some convolved"
| "convLoop (Suc n) kernel' convolved =
     (case convolve convolved kernel' 1 1 of
        Inl (Error msg) \<Rightarrow> Some convolved
      | Inl Panic \<Rightarrow> None
      | Inr tmpGrid \<Rightarrow>
          (case normalizeGrid tmpGrid of
             None \<Rightarrow> None
           | Some normalized \<Rightarrow> convLoop n kernel' normalized))"

text \<open>The grid pipeline up to the cell offsets \<open>(xMax, yMax)\<close> after the fallback to the middle.\<close>

definition splitCell :: "grid \<Rightarrow> int \<Rightarrow> grid \<Rightarrow> (int \<times> int) option" where
  "splitCell grid convNum kernel' = do {
     convolved \<leftarrow> normalizeGrid grid;
     convolved \<leftarrow> convLoop (nat convNum) kernel' convolved;
     convolved \<leftarrow> normalizeGrid convolved;
     (xMax, yMax) \<leftarrow> getSplitPoint convolved;
     c0 \<leftarrow> getAt convolved 0;
     Some (if xMax < 1 \<or> xMax \<ge> len convolved - 1 then quot (len convolved) 2 else xMax,
           if yMax < 1 \<or> yMax \<ge> len c0 - 1 then quot (len c0) 2 else yMax) }"

text \<open>The cut \<open>(xRight, yBottom)\<close> of \<open>split\<close>, clamped to the minimum lengths.\<close>

definition clampCut :: "real \<Rightarrow> real \<Rightarrow> real \<Rightarrow> real \<Rightarrow> real" where
  "clampCut lo hi minLength offset =
     (let c = lo + offset;
          c = (if c - lo < minLength then lo + minLength else c);
          c = (if hi - c < minLength then hi - minLength else c)
      in c)"

definition splitCut :: "Node \<Rightarrow> (real \<times> real) option" where
  "splitCut tree = do {
     grid \<leftarrow> weightGrid tree;
     (xMax, yMax) \<leftarrow> splitCell grid (ConvNum tree) (Kernel tree);
     let xStep = (X (BottomRight tree) - X (TopLeft tree)) / real_of_int (GridSize tree);
         yStep = (Y (BottomRight tree) - Y (TopLeft tree)) / real_of_int (GridSize tree);
         xOffset = real_of_int xMax * xStep;
         yOffset = real_of_int yMax * yStep
     in Some (clampCut (X (TopLeft tree)) (X (BottomRight tree)) (MinXLength tree) xOffset,
              clampCut (Y (TopLeft tree)) (Y (BottomRight tree)) (MinYLength tree) yOffset) }"

text \<open>A child as \<open>split\<close> creates it, with its share of the parent's points.\<close>

definition newChild :: "Node \<Rightarrow> Point \<Rightarrow> Point \<Rightarrow> Node" where
  "newChild tree topLeft bottomRight =
     \<lparr>IsLeaf = True, MaxPoints = MaxPoints tree, MaxDepth = MaxDepth tree,
      Depth = Depth tree + 1, GridSize = GridSize tree, ConvNum = ConvNum tree,
      Kernel = Kernel tree,
      Points = filterSplitPoints tree topLeft bottomRight,
      MinXLength = MinXLength tree, MinYLength = MinYLength tree,
      TopLeft = topLeft, BottomRight = bottomRight, BaselineTags = []\<rparr>"

text \<open>
  \<open>split\<close> builds the four children in the order top left, top right, bottom left,
  bottom right; each child that passes \<open>checkSplit\<close> is split before the next one is
  built. The node then stops being a leaf and drops its points. Children the node had
  before are replaced.
\<close>

function split :: "ConvTree \<Rightarrow> error + ConvTree" where
  "split (ConvTree tree ctl ctr cbl cbr) =
     (case splitCut tree of
        None \<Rightarrow> Inl Panic
      | Some (xRight, yBottom) \<Rightarrow>
          (let c1 = newChild tree (TopLeft tree) (corner xRight yBottom);
               c2 = newChild tree (corner xRight (Y (TopLeft tree)))
                      (corner (X (BottomRight tree)) yBottom);
               c3 = newChild tree (corner (X (TopLeft tree)) yBottom)
                      (corner xRight (Y (BottomRight tree)));
               c4 = newChild tree (corner xRight yBottom) (BottomRight tree)
           in case (if checkSplit c1 then split (childless c1) else Inr (childless c1)) of
                Inl e \<Rightarrow> Inl e
              | Inr t1 \<Rightarrow>
             (case (if checkSplit c2 then split (childless c2) else Inr (childless c2)) of
                Inl e \<Rightarrow> Inl e
              | Inr t2 \<Rightarrow>
             (case (if checkSplit c3 then split (childless c3) else Inr (childless c3)) of
                Inl e \<Rightarrow> Inl e
              | Inr t3 \<Rightarrow>
             (case (if checkSplit c4 then split (childless c4) else Inr (childless c4)) of
                Inl e \<Rightarrow> Inl e
              | Inr t4 \<Rightarrow>
                  Inr (ConvTree (tree\<lparr>IsLeaf := False, Points := []\<rparr>)
                         (Some t1) (Some t2) (Some t3) (Some t4)))))))"
  by pat_completeness auto
termination
  by (relation "measure (\<lambda>t. nat (MaxDepth (node t) - Depth (node t)))")
    (auto simp: checkSplit_def newChild_def childless_def Let_def)

definition NewConvTree ::
  "Point \<Rightarrow> Point \<Rightarrow> real \<Rightarrow> real \<Rightarrow> 64 word \<Rightarrow> int \<Rightarrow> int \<Rightarrow> int \<Rightarrow> grid \<Rightarrow> Point list
   \<Rightarrow> error + ConvTree" where
  "NewConvTree topLeft bottomRight minXLength minYLength maxPoints maxDepth convNumber gridSize
     kernel' initPoints =
     (if X topLeft \<ge> X bottomRight
        then Inl (Error ''X of top left point is larger or equal to X of bottom right point'')
      else if Y topLeft \<ge> Y bottomRight
        then Inl (Error ''Y of top left point is larger or equal to Y of bottom right point'')
      else
        let kernel' = (if \<not> checkKernel kernel' then defaultKernel else kernel');
            tree = \<lparr>IsLeaf = True, MaxPoints = maxPoints, MaxDepth = maxDepth, Depth = 0,
                    GridSize = gridSize, ConvNum = convNumber, Kernel = kernel',
                    Points = initPoints, MinXLength = minXLength, MinYLength = minYLength,
                    TopLeft = topLeft, BottomRight = bottomRight, BaselineTags = []\<rparr>
        in if checkSplit tree then split (childless tree) else Inr (childless tree))"

text \<open>\<open>contains child point\<close> is the test \<open>Insert\<close> makes before it descends into a child.\<close>

definition contains :: "ConvTree \<Rightarrow> Point \<Rightarrow> bool" where
  "contains child point =
     (X point \<ge> X (TopLeft (node child)) \<and> X point \<le> X (BottomRight (node child))
      \<and> Y point \<ge> Y (TopLeft (node child)) \<and> Y point \<le> Y (BottomRight (node child)))"

text \<open>
  \<open>Insert\<close> changes the tree in place; the model returns the tree after the call. A node
  that is not a leaf and lacks a child is a nil dereference.
\<close>

fun Insert :: "ConvTree \<Rightarrow> Point \<Rightarrow> bool \<Rightarrow> error + ConvTree" where
  "Insert (ConvTree tree ctl ctr cbl cbr) point allowSplit =
     (if \<not> IsLeaf tree then
        (case ctl of None \<Rightarrow> Inl Panic | Some c1 \<Rightarrow>
           if contains c1 point then
             (case Insert c1 point allowSplit of
                Inl e \<Rightarrow> Inl e
              | Inr c1' \<Rightarrow> Inr (ConvTree tree (Some c1') ctr cbl cbr))
           else
        (case ctr of None \<Rightarrow> Inl Panic | Some c2 \<Rightarrow>
           if contains c2 point then
             (case Insert c2 point allowSplit of
                Inl e \<Rightarrow> Inl e
              | Inr c2' \<Rightarrow> Inr (ConvTree tree ctl (Some c2') cbl cbr))
           else
        (case cbl of None \<Rightarrow> Inl Panic | Some c3 \<Rightarrow>
           if contains c3 point then
             (case Insert c3 point allowSplit of
                Inl e \<Rightarrow> Inl e
              | Inr c3' \<Rightarrow> Inr (ConvTree tree ctl ctr (Some c3') cbr))
           else
        (case cbr of None \<Rightarrow> Inl Panic | Some c4 \<Rightarrow>
           if contains c4 point then
             (case Insert c4 point allowSplit of
                Inl e \<Rightarrow> Inl e
              | Inr c4' \<Rightarrow> Inr (ConvTree tree ctl ctr cbl (Some c4')))
           else Inr (ConvTree tree ctl ctr cbl cbr)))))
      else
        (let tree = tree\<lparr>Points := Points tree @ [point]\<rparr> in
         if allowSplit then
           (if checkSplit tree then split (ConvTree tree ctl ctr cbl cbr)
            else Inr (ConvTree tree ctl ctr cbl cbr))
         else Inr (ConvTree tree ctl ctr cbl cbr)))"



section \<open>The second ConvTree source: greater Y is the top edge\<close>

text \<open>
  \<open>tagValues\<close>, a \<open>map[string]int\<close>, is an association list with distinct keys, a new key
  going to the end. Go ranges over a map in an unspecified order; the model ranges in
  list order, and the statements below speak of the set of tags only.
\<close>

definition itemTags :: "string list \<Rightarrow> string list" where
  "itemTags tags = fold (\<lambda>tag seen. if tag \<in> set seen then seen else seen @ [tag]) tags []"

definition countTag :: "string \<Rightarrow> (string \<times> int) list \<Rightarrow> (string \<times> int) list" where
  "countTag tag tagValues =
     (let tagValues = (if map_of tagValues tag = None then AList.update tag 0 tagValues
                       else tagValues)
      in AList.update tag (the (map_of tagValues tag) + 1) tagValues)"

definition tagCounts :: "Point list \<Rightarrow> (string \<times> int) list" where
  "tagCounts points =
     fold (\<lambda>item tagValues.
             case Content item of
               Tags tags \<Rightarrow> fold countTag (itemTags tags) tagValues
             | _ \<Rightarrow> tagValues) points []"

text \<open>\<open>int(avg)\<close>: the conversion of a \<open>float64\<close> to \<open>int\<close> drops the fraction.\<close>

definition toInt :: "real \<Rightarrow> int" where
  "toInt r = (if r \<ge> 0 then \<lfloor>r\<rfloor> else \<lceil>r\<rceil>)"

definition filterTags :: "(string \<times> int) list \<Rightarrow> string list" where
  "filterTags tags =
     (let numbers = map (\<lambda>(k, v). real_of_int v) tags;
          avg = mean numbers;
          splitValue = toInt avg
      in map fst (filter (\<lambda>(k, v). v > splitValue) tags))"

definition getBaseline :: "Node \<Rightarrow> Node" where
  "getBaseline tree =
     (let tagValues = tagCounts (Points tree) in
      if len tagValues > 0 then tree\<lparr>BaselineTags := filterTags tagValues\<rparr> else tree)"

definition checkSplit2 :: "Node \<Rightarrow> bool" where
  "checkSplit2 tree =
     (let cond1 = X (BottomRight tree) - X (TopLeft tree) > 2 * MinXLength tree
                  \<and> Y (TopLeft tree) - Y (BottomRight tree) > 2 * MinYLength tree;
          totalWeight = fold (\<lambda>point totalWeight. totalWeight + Weight point) (Points tree) 0;
          cond2 = sint totalWeight > sint (MaxPoints tree) \<and> Depth tree < MaxDepth tree
      in cond1 \<and> cond2)"

definition getNodeWeight2 :: "Node \<Rightarrow> real \<Rightarrow> real \<Rightarrow> real \<Rightarrow> real \<Rightarrow> 64 word" where
  "getNodeWeight2 tree xLeft xRight yTop yBottom =
     fold (\<lambda>point total.
             if X point \<ge> xLeft \<and> X point \<le> xRight \<and> Y point \<ge> yBottom \<and> Y point \<le> yTop
             then total + Weight point else total) (Points tree) 0"

definition filterSplitPoints2 :: "Node \<Rightarrow> Point \<Rightarrow> Point \<Rightarrow> Point list" where
  "filterSplitPoints2 tree topLeft bottomRight =
     filter (\<lambda>point. X point \<ge> X topLeft \<and> X point \<le> X bottomRight
                    \<and> Y point \<ge> Y bottomRight \<and> Y point \<le> Y topLeft) (Points tree)"

definition weightGrid2 :: "Node \<Rightarrow> grid option" where
  "weightGrid2 tree =
     (let xSize = GridSize tree; ySize = GridSize tree;
          xStep = (X (BottomRight tree) - X (TopLeft tree)) / real_of_int xSize;
          yStep = (Y (TopLeft tree) - Y (BottomRight tree)) / real_of_int ySize
      in do {
        grid \<leftarrow> makeSlice xSize [];
        forRange 0 xSize (\<lambda>i grid. do {
          row \<leftarrow> makeSlice ySize 0;
          row \<leftarrow> forRange 0 ySize (\<lambda>j row.
                   let xLeft = X (TopLeft tree) + real_of_int i * xStep;
                       xRight = X (TopLeft tree) + real_of_int (i + 1) * xStep;
                       yBottom = Y (BottomRight tree) + real_of_int j * yStep;
                       yTop = Y (BottomRight tree) + real_of_int (j + 1) * yStep
                   in setAt row j (real_of_int (sint (getNodeWeight2 tree xLeft xRight yTop yBottom))))
                 row;
          setAt grid i row }) grid })"

definition splitCut2 :: "Node \<Rightarrow> (real \<times> real) option" where
  "splitCut2 tree = do {
     grid \<leftarrow> weightGrid2 tree;
     (xMax, yMax) \<leftarrow> splitCell grid (ConvNum tree) (Kernel tree);
     let xStep = (X (BottomRight tree) - X (TopLeft tree)) / real_of_int (GridSize tree);
         yStep = (Y (TopLeft tree) - Y (BottomRight tree)) / real_of_int (GridSize tree);
         xOffset = real_of_int xMax * xStep;
         yOffset = real_of_int yMax * yStep
     in Some (clampCut (X (TopLeft tree)) (X (BottomRight tree)) (MinXLength tree) xOffset,
              clampCut (Y (BottomRight tree)) (Y (TopLeft tree)) (MinYLength tree) yOffset) }"

definition newChild2 :: "Node \<Rightarrow> Point \<Rightarrow> Point \<Rightarrow> Node" where
  "newChild2 tree topLeft bottomRight =
     \<lparr>IsLeaf = True, MaxPoints = MaxPoints tree, MaxDepth = MaxDepth tree,
      Depth = Depth tree + 1, GridSize = GridSize tree, ConvNum = ConvNum tree,
      Kernel = Kernel tree,
      Points = filterSplitPoints2 tree topLeft bottomRight,
      MinXLength = MinXLength tree, MinYLength = MinYLength tree,
      TopLeft = topLeft, BottomRight = bottomRight, BaselineTags = []\<rparr>"

text \<open>
  A child that is not split takes the parent's \<open>BaselineTags\<close> and then computes its own:
  \<open>seeded tree c\<close> is that \<open>else\<close> branch.
\<close>

definition seeded :: "Node \<Rightarrow> Node \<Rightarrow> ConvTree" where
  "seeded tree c = childless (getBaseline (c\<lparr>BaselineTags := BaselineTags tree\<rparr>))"

function split2 :: "ConvTree \<Rightarrow> error + ConvTree" where
  "split2 (ConvTree tree ctl ctr cbl cbr) =
     (case splitCut2 tree of
        None \<Rightarrow> Inl Panic
      | Some (xRight, yBottom) \<Rightarrow>
          (let c1 = newChild2 tree (TopLeft tree) (corner xRight yBottom);
               c2 = newChild2 tree (corner xRight (Y (TopLeft tree)))
                      (corner (X (BottomRight tree)) yBottom);
               c3 = newChild2 tree (corner (X (TopLeft tree)) yBottom)
                      (corner xRight (Y (BottomRight tree)));
               c4 = newChild2 tree (corner xRight yBottom) (BottomRight tree)
           in case (if checkSplit2 c1 then split2 (childless c1) else Inr (seeded tree c1)) of
                Inl e \<Rightarrow> Inl e
              | Inr t1 \<Rightarrow>
             (case (if checkSplit2 c2 then split2 (childless c2) else Inr (seeded tree c2)) of
                Inl e \<Rightarrow> Inl e
              | Inr t2 \<Rightarrow>
             (case (if checkSplit2 c3 then split2 (childless c3) else Inr (seeded tree c3)) of
                Inl e \<Rightarrow> Inl e
              | Inr t3 \<Rightarrow>
             (case (if checkSplit2 c4 then split2 (childless c4) else Inr (seeded tree c4)) of
                Inl e \<Rightarrow> Inl e
              | Inr t4 \<Rightarrow>
                  Inr (ConvTree (tree\<lparr>IsLeaf := False, Points := []\<rparr>)
                         (Some t1) (Some t2) (Some t3) (Some t4)))))))"
  by pat_completeness auto
termination
  by (relation "measure (\<lambda>t. nat (MaxDepth (node t) - Depth (node t)))")
    (auto simp: checkSplit2_def newChild2_def childless_def Let_def)

definition NewConvTree2 ::
  "Point \<Rightarrow> Point \<Rightarrow> real \<Rightarrow> real \<Rightarrow> 64 word \<Rightarrow> int \<Rightarrow> int \<Rightarrow> int \<Rightarrow> grid \<Rightarrow> Point list
   \<Rightarrow> error + ConvTree" where
  "NewConvTree2 topLeft bottomRight minXLength minYLength maxPoints maxDepth convNumber gridSize
     kernel' initPoints =
     (if X topLeft \<ge> X bottomRight
        then Inl (Error ''X of top left point is larger or equal to X of bottom right point'')
      else if Y topLeft \<le> Y bottomRight
        then Inl (Error ''Y of bottom right point is larger or equal to Y of top left point'')
      else
        let kernel' = (if \<not> checkKernel kernel' then defaultKernel else kernel');
            tree = \<lparr>IsLeaf = True, MaxPoints = maxPoints, MaxDepth = maxDepth, Depth = 0,
                    GridSize = gridSize, ConvNum = convNumber, Kernel = kernel',
                    Points = initPoints, MinXLength = minXLength, MinYLength = minYLength,
                    TopLeft = topLeft, BottomRight = bottomRight, BaselineTags = []\<rparr>
        in if checkSplit2 tree then split2 (childless tree)
           else Inr (childless (getBaseline tree)))"

definition contains2 :: "ConvTree \<Rightarrow> Point \<Rightarrow> bool" where
  "contains2 child point =
     (X point \<ge> X (TopLeft (node child)) \<and> X point \<le> X (BottomRight (node child))
      \<and> Y point \<le> Y (TopLeft (node child)) \<and> Y point \<ge> Y (BottomRight (node child)))"

fun Insert2 :: "ConvTree \<Rightarrow> Point \<Rightarrow> bool \<Rightarrow> error + ConvTree" where
  "Insert2 (ConvTree tree ctl ctr cbl cbr) point allowSplit =
     (if \<not> IsLeaf tree then
        (case ctl of None \<Rightarrow> Inl Panic | Some c1 \<Rightarrow>
           if contains2 c1 point then
             (case Insert2 c1 point allowSplit of
                Inl e \<Rightarrow> Inl e
              | Inr c1' \<Rightarrow> Inr (ConvTree tree (Some c1') ctr cbl cbr))
           else
        (case ctr of None \<Rightarrow> Inl Panic | Some c2 \<Rightarrow>
           if contains2 c2 point then
             (case Insert2 c2 point allowSplit of
                Inl e \<Rightarrow> Inl e
              | Inr c2' \<Rightarrow> Inr (ConvTree tree ctl (Some c2') cbl cbr))
           else
        (case cbl of None \<Rightarrow> Inl Panic | Some c3 \<Rightarrow>
           if contains2 c3 point then
             (case Insert2 c3 point allowSplit of
                Inl e \<Rightarrow> Inl e
              | Inr c3' \<Rightarrow> Inr (ConvTree tree ctl ctr (Some c3') cbr))
           else
        (case cbr of None \<Rightarrow> Inl Panic | Some c4 \<Rightarrow>
           if contains2 c4 point then
             (case Insert2 c4 point allowSplit of
                Inl e \<Rightarrow> Inl e
              | Inr c4' \<Rightarrow> Inr (ConvTree tree ctl ctr cbl (Some c4')))
           else Inr (ConvTree tree ctl ctr cbl cbr)))))
      else
        (let tree = tree\<lparr>Points := Points tree @ [point]\<rparr> in
         if allowSplit then
           (if checkSplit2 tree then split2 (ConvTree tree ctl ctr cbl cbr)
            else Inr (ConvTree tree ctl ctr cbl cbr))
         else Inr (ConvTree tree ctl ctr cbl cbr)))"


section \<open>The midpoint tree of \<open>quad-tree.go\<close>\<close>

record QNode =
  IsLeaf_q :: bool
  maxPoints :: "64 word"
  maxDepth :: int
  Depth_q :: int
  splitSteps :: int
  Points_q :: "Point list"
  TopLeft_q :: Point
  BottomRight_q :: Point
  minXLength :: real
  minYLength :: real

datatype QuadTree =
  QuadTree (node_q: QNode) (ChildTopLeft_q: "QuadTree option") (ChildTopRight_q: "QuadTree option")
    (ChildBottomLeft_q: "QuadTree option") (ChildBottomRight_q: "QuadTree option")

definition childless_q :: "QNode \<Rightarrow> QuadTree" where
  "childless_q n = QuadTree n None None None None"

definition checkSplit_q :: "QNode \<Rightarrow> bool" where
  "checkSplit_q tree =
     (let cond1 = X (BottomRight_q tree) - X (TopLeft_q tree) > 2 * minXLength tree
                  \<and> Y (BottomRight_q tree) - Y (TopLeft_q tree) > 2 * minYLength tree;
          total = fold (\<lambda>point total. total + Weight point) (Points_q tree) 0;
          cond2 = sint total > sint (maxPoints tree) \<and> Depth_q tree < maxDepth tree
      in cond1 \<and> cond2)"

definition filterSplitPoints_q :: "QNode \<Rightarrow> Point \<Rightarrow> Point \<Rightarrow> Point list" where
  "filterSplitPoints_q tree topLeft bottomRight =
     filter (\<lambda>point. X point \<ge> X topLeft \<and> X point \<le> X bottomRight
                    \<and> Y point \<ge> Y topLeft \<and> Y point \<le> Y bottomRight) (Points_q tree)"

definition newChild_q :: "QNode \<Rightarrow> Point \<Rightarrow> Point \<Rightarrow> QNode" where
  "newChild_q tree topLeft bottomRight =
     \<lparr>IsLeaf_q = True, maxPoints = maxPoints tree, maxDepth = maxDepth tree,
      Depth_q = Depth_q tree + 1, splitSteps = splitSteps tree,
      Points_q = filterSplitPoints_q tree topLeft bottomRight,
      TopLeft_q = topLeft, BottomRight_q = bottomRight,
      minXLength = minXLength tree, minYLength = minYLength tree\<rparr>"

function split_q :: "QuadTree \<Rightarrow> QuadTree" where
  "split_q (QuadTree tree ctl ctr cbl cbr) =
     (let xRight = X (TopLeft_q tree) + (X (BottomRight_q tree) - X (TopLeft_q tree)) / 2;
          yBottom = Y (TopLeft_q tree) + (Y (BottomRight_q tree) - Y (TopLeft_q tree)) / 2;
          c1 = newChild_q tree (TopLeft_q tree) (corner xRight yBottom);
          c2 = newChild_q tree (corner xRight (Y (TopLeft_q tree)))
                 (corner (X (BottomRight_q tree)) yBottom);
          c3 = newChild_q tree (corner (X (TopLeft_q tree)) yBottom)
                 (corner xRight (Y (BottomRight_q tree)));
          c4 = newChild_q tree (corner xRight yBottom) (BottomRight_q tree);
          t1 = (if checkSplit_q c1 then split_q (childless_q c1) else childless_q c1);
          t2 = (if checkSplit_q c2 then split_q (childless_q c2) else childless_q c2);
          t3 = (if checkSplit_q c3 then split_q (childless_q c3) else childless_q c3);
          t4 = (if checkSplit_q c4 then split_q (childless_q c4) else childless_q c4)
      in QuadTree (tree\<lparr>IsLeaf_q := False, Points_q := []\<rparr>)
           (Some t1) (Some t2) (Some t3) (Some t4))"
  by pat_completeness auto
termination
  by (relation "measure (\<lambda>t. nat (maxDepth (node_q t) - Depth_q (node_q t)))")
    (auto simp: checkSplit_q_def newChild_q_def childless_q_def Let_def)

text \<open>\<open>NewQuadTree\<close> does not set \<open>IsLeaf\<close>: a root that is not split keeps the zero value \<open>false\<close>.\<close>

definition NewQuadTree ::
  "Point \<Rightarrow> Point \<Rightarrow> real \<Rightarrow> real \<Rightarrow> 64 word \<Rightarrow> int \<Rightarrow> Point list \<Rightarrow> error + QuadTree" where
  "NewQuadTree topLeft bottomRight minXLength' minYLength' maxPoints' maxDepth' initPoints =
     (if X topLeft \<ge> X bottomRight
        then Inl (Error ''X of top left point is larger or equal to X of bottom right point'')
      else if Y topLeft \<ge> Y bottomRight
        then Inl (Error ''Y of top left point is larger or equal to Y of bottom right point'')
      else
        let tree = \<lparr>IsLeaf_q = False, maxPoints = maxPoints', maxDepth = maxDepth', Depth_q = 0,
                    splitSteps = 10, Points_q = initPoints, TopLeft_q = topLeft,
                    BottomRight_q = bottomRight, minXLength = minXLength',
                    minYLength = minYLength'\<rparr>
        in if checkSplit_q tree then Inr (split_q (childless_q tree))
           else Inr (childless_q tree))"

definition contains_q :: "QuadTree \<Rightarrow> Point \<Rightarrow> bool" where
  "contains_q child point =
     (X point \<ge> X (TopLeft_q (node_q child)) \<and> X point \<le> X (BottomRight_q (node_q child))
      \<and> Y point \<ge> Y (TopLeft_q (node_q child)) \<and> Y point \<le> Y (BottomRight_q (node_q child)))"

fun Insert_q :: "QuadTree \<Rightarrow> Point \<Rightarrow> error + QuadTree" where
  "Insert_q (QuadTree tree ctl ctr cbl cbr) point =
     (if \<not> IsLeaf_q tree then
        (case ctl of None \<Rightarrow> Inl Panic | Some c1 \<Rightarrow>
           if contains_q c1 point then
             (case Insert_q c1 point of
                Inl e \<Rightarrow> Inl e
              | Inr c1' \<Rightarrow> Inr (QuadTree tree (Some c1') ctr cbl cbr))
           else
        (case ctr of None \<Rightarrow> Inl Panic | Some c2 \<Rightarrow>
           if contains_q c2 point then
             (case Insert_q c2 point of
                Inl e \<Rightarrow> Inl e
              | Inr c2' \<Rightarrow> Inr (QuadTree tree ctl (Some c2') cbl cbr))
           else
        (case cbl of None \<Rightarrow> Inl Panic | Some c3 \<Rightarrow>
           if contains_q c3 point then
             (case Insert_q c3 point of
                Inl e \<Rightarrow> Inl e
              | Inr c3' \<Rightarrow> Inr (QuadTree tree ctl ctr (Some c3') cbr))
           else
        (case cbr of None \<Rightarrow> Inl Panic | Some c4 \<Rightarrow>
           if contains_q c4 point then
             (case Insert_q c4 point of
                Inl e \<Rightarrow> Inl e
              | Inr c4' \<Rightarrow> Inr (QuadTree tree ctl ctr cbl (Some c4')))
           else Inr (QuadTree tree ctl ctr cbl cbr)))))
      else
        (let tree = tree\<lparr>Points_q := Points_q tree @ [point]\<rparr> in
         if checkSplit_q tree then Inr (split_q (QuadTree tree ctl ctr cbl cbr))
         else Inr (QuadTree tree ctl ctr cbl cbr)))"

section \<open>Sizes, weights and example nodes\<close>

text \<open>
  Width and height of a node's rectangle, in the orientation of each source: the bottom
  edge is the greater Y in \<open>conv-tree.go\<close> and \<open>quad-tree.go\<close>, the lesser Y in the second
  ConvTree source. \<open>totalWeight\<close> is the sum of the weights in Go's \<open>int\<close> arithmetic.
\<close>

definition width :: "Node \<Rightarrow> real" where
  "width n = X (BottomRight n) - X (TopLeft n)"

definition height :: "Node \<Rightarrow> real" where
  "height n = Y (BottomRight n) - Y (TopLeft n)"

definition height2 :: "Node \<Rightarrow> real" where
  "height2 n = Y (TopLeft n) - Y (BottomRight n)"

definition width_q :: "QNode \<Rightarrow> real" where
  "width_q n = X (BottomRight_q n) - X (TopLeft_q n)"

definition height_q :: "QNode \<Rightarrow> real" where
  "height_q n = Y (BottomRight_q n) - Y (TopLeft_q n)"

definition totalWeight :: "Point list \<Rightarrow> 64 word" where
  "totalWeight ps = sum_list (map Weight ps)"

text \<open>A point without payload, and nodes over given corners holding given points.\<close>

definition pt :: "real \<Rightarrow> real \<Rightarrow> 64 word \<Rightarrow> Point" where
  "pt x y w = \<lparr>X = x, Y = y, Weight = w, Content = NoContent\<rparr>"

definition nodeAt :: "Point \<Rightarrow> Point \<Rightarrow> bool \<Rightarrow> Point list \<Rightarrow> Node" where
  "nodeAt topLeft bottomRight leaf ps =
     \<lparr>IsLeaf = leaf, MaxPoints = 1, MaxDepth = 1, Depth = 0, GridSize = 1, ConvNum = 0,
      Kernel = defaultKernel, Points = ps, MinXLength = 1, MinYLength = 1,
      TopLeft = topLeft, BottomRight = bottomRight, BaselineTags = []\<rparr>"

definition nodeAt_q :: "Point \<Rightarrow> Point \<Rightarrow> bool \<Rightarrow> Point list \<Rightarrow> QNode" where
  "nodeAt_q topLeft bottomRight leaf ps =
     \<lparr>IsLeaf_q = leaf, maxPoints = 1, maxDepth = 1, Depth_q = 0, splitSteps = 10,
      Points_q = ps, TopLeft_q = topLeft, BottomRight_q = bottomRight,
      minXLength = 1, minYLength = 1\<rparr>"

text \<open>
  Internal nodes over the square from 0 to 10 cut at (5, 5), one per tree, each with four
  empty leaves.
\<close>

definition quartered :: ConvTree where
  "quartered =
     ConvTree (nodeAt (corner 0 0) (corner 10 10) False [])
       (Some (childless (nodeAt (corner 0 0) (corner 5 5) True [])))
       (Some (childless (nodeAt (corner 5 0) (corner 10 5) True [])))
       (Some (childless (nodeAt (corner 0 5) (corner 5 10) True [])))
       (Some (childless (nodeAt (corner 5 5) (corner 10 10) True [])))"

definition quartered2 :: ConvTree where
  "quartered2 =
     ConvTree (nodeAt (corner 0 10) (corner 10 0) False [])
       (Some (childless (nodeAt (corner 0 10) (corner 5 5) True [])))
       (Some (childless (nodeAt (corner 5 10) (corner 10 5) True [])))
       (Some (childless (nodeAt (corner 0 5) (corner 5 0) True [])))
       (Some (childless (nodeAt (corner 5 5) (corner 10 0) True [])))"

definition quartered_q :: QuadTree where
  "quartered_q =
     QuadTree (nodeAt_q (corner 0 0) (corner 10 10) False [])
       (Some (childless_q (nodeAt_q (corner 0 0) (corner 5 5) True [])))
       (Some (childless_q (nodeAt_q (corner 5 0) (corner 10 5) True [])))
       (Some (childless_q (nodeAt_q (corner 0 5) (corner 5 10) True [])))
       (Some (childless_q (nodeAt_q (corner 5 5) (corner 10 10) True [])))"

section \<open>Baseline tags, as the spec words them\<close>

text \<open>
  The tags a point carries, the number of points of a list that carry a tag, the distinct
  tags of a list of points, the arithmetic mean of the per-tag counts, and the tags whose
  count is strictly above that mean.
\<close>

definition tagsOf :: "Point \<Rightarrow> string list" where
  "tagsOf p = (case Content p of Tags tags \<Rightarrow> tags | _ \<Rightarrow> [])"

definition carriers :: "string \<Rightarrow> Point list \<Rightarrow> nat" where
  "carriers tag ps = length (filter (\<lambda>p. tag \<in> set (tagsOf p)) ps)"

definition allTags :: "Point list \<Rightarrow> string list" where
  "allTags ps = remdups (concat (map tagsOf ps))"

definition meanCarriers :: "Point list \<Rightarrow> real" where
  "meanCarriers ps =
     (\<Sum>tag\<leftarrow>allTags ps. real (carriers tag ps)) / real (length (allTags ps))"

definition aboveMean :: "Point list \<Rightarrow> string list" where
  "aboveMean ps = filter (\<lambda>tag. real (carriers tag ps) > meanCarriers ps) (allTags ps)"

text \<open>
  The count a tag has in an association list, 0 when it is absent; and the invariant of
  \<open>tagValues\<close>: distinct keys, every count at least 1.
\<close>

definition countOf :: "(string \<times> int) list \<Rightarrow> string \<Rightarrow> int" where
  "countOf tv tag = (case map_of tv tag of None \<Rightarrow> 0 | Some n \<Rightarrow> n)"

definition counted :: "(string \<times> int) list \<Rightarrow> bool" where
  "counted tv = (distinct (map fst tv) \<and> (\<forall>k v. map_of tv k = Some v \<longrightarrow> v \<ge> 1))"

text \<open>A point with tags, a leaf with tagged points, and a leaf without any that has tags already.\<close>

definition tagged :: "real \<Rightarrow> real \<Rightarrow> 64 word \<Rightarrow> string list \<Rightarrow> Point" where
  "tagged x y w tags = \<lparr>X = x, Y = y, Weight = w, Content = Tags tags\<rparr>"

definition tagLeaf :: Node where
  "tagLeaf = nodeAt (corner 0 10) (corner 10 0) True
     [tagged 1 1 1 [''a'', ''b'', ''a''], tagged 2 2 1 [''a''], pt 3 3 1]"

definition bareLeaf :: Node where
  "bareLeaf = (nodeAt (corner 0 10) (corner 10 0) True [pt 3 3 1])\<lparr>BaselineTags := [''x'']\<rparr>"

section \<open>Predicates for the pipeline\<close>




definition grow :: "Node \<Rightarrow> error + ConvTree" where
  "grow c = (if checkSplit c then split (childless c) else Inr (childless c))"

definition grow2 :: "Node \<Rightarrow> Node \<Rightarrow> error + ConvTree" where
  "grow2 tree c = (if checkSplit2 c then split2 (childless c) else Inr (seeded tree c))"

text \<open>The measure of the recursion: the levels left below a node.\<close>

definition levels :: "Node \<Rightarrow> nat" where
  "levels n = nat (MaxDepth n - Depth n)"

subsection \<open>Leaves and depths\<close>

text \<open>
  The leaves of a tree are the nodes flagged \<open>IsLeaf\<close> that \<open>Insert\<close> and \<open>Check\<close> reach
  through nodes that are not. \<open>depthsOK\<close> says that every child is one level below its
  parent (\<open>depthsOK_q\<close> for the QuadTree).
\<close>

fun leaves :: "ConvTree \<Rightarrow> Node list" where
  "leaves (ConvTree n a b c d) =
     (if IsLeaf n then [n]
      else (case a of None \<Rightarrow> [] | Some t \<Rightarrow> leaves t) @ (case b of None \<Rightarrow> [] | Some t \<Rightarrow> leaves t)
         @ (case c of None \<Rightarrow> [] | Some t \<Rightarrow> leaves t) @ (case d of None \<Rightarrow> [] | Some t \<Rightarrow> leaves t))"

fun depthsOK :: "ConvTree \<Rightarrow> bool" where
  "depthsOK (ConvTree n a b c d) =
     ((case a of None \<Rightarrow> True | Some t \<Rightarrow> Depth (node t) = Depth n + 1 \<and> depthsOK t)
      \<and> (case b of None \<Rightarrow> True | Some t \<Rightarrow> Depth (node t) = Depth n + 1 \<and> depthsOK t)
      \<and> (case c of None \<Rightarrow> True | Some t \<Rightarrow> Depth (node t) = Depth n + 1 \<and> depthsOK t)
      \<and> (case d of None \<Rightarrow> True | Some t \<Rightarrow> Depth (node t) = Depth n + 1 \<and> depthsOK t))"

fun depthsOK_q :: "QuadTree \<Rightarrow> bool" where
  "depthsOK_q (QuadTree n a b c d) =
     ((case a of None \<Rightarrow> True | Some t \<Rightarrow> Depth_q (node_q t) = Depth_q n + 1 \<and> depthsOK_q t)
      \<and> (case b of None \<Rightarrow> True | Some t \<Rightarrow> Depth_q (node_q t) = Depth_q n + 1 \<and> depthsOK_q t)
      \<and> (case c of None \<Rightarrow> True | Some t \<Rightarrow> Depth_q (node_q t) = Depth_q n + 1 \<and> depthsOK_q t)
      \<and> (case d of None \<Rightarrow> True | Some t \<Rightarrow> Depth_q (node_q t) = Depth_q n + 1 \<and> depthsOK_q t))"

definition grow_q :: "QNode \<Rightarrow> QuadTree" where
  "grow_q c = (if checkSplit_q c then split_q (childless_q c) else childless_q c)"

definition levels_q :: "QNode \<Rightarrow> nat" where
  "levels_q n = nat (maxDepth n - Depth_q n)"



section \<open>The split test and the flat field, as the spec words them\<close>

text \<open>
  The spec states the split test over the exact sum of the weights and the exact width
  and height. \<open>weightSum\<close> is the sum of the weights as integers, without wrap-around, and
  \<open>shouldSplit\<close> the test as the spec words it (\<open>shouldSplit2\<close> with the Y axis of the
  second source, \<open>shouldSplit_q\<close> for the QuadTree).
\<close>

definition weightSum :: "Point list \<Rightarrow> int" where
  "weightSum ps = (\<Sum>p\<leftarrow>ps. sint (Weight p))"

definition shouldSplit :: "Node \<Rightarrow> bool" where
  "shouldSplit n =
     (width n > 2 * MinXLength n \<and> height n > 2 * MinYLength n
      \<and> weightSum (Points n) > sint (MaxPoints n) \<and> Depth n < MaxDepth n)"

definition shouldSplit2 :: "Node \<Rightarrow> bool" where
  "shouldSplit2 n =
     (width n > 2 * MinXLength n \<and> height2 n > 2 * MinYLength n
      \<and> weightSum (Points n) > sint (MaxPoints n) \<and> Depth n < MaxDepth n)"

definition shouldSplit_q :: "QNode \<Rightarrow> bool" where
  "shouldSplit_q q =
     (width_q q > 2 * minXLength q \<and> height_q q > 2 * minYLength q
      \<and> weightSum (Points_q q) > sint (maxPoints q) \<and> Depth_q q < maxDepth q)"

text \<open>
  Where a statement of this theory compares the result of an addition, a subtraction or
  a multiplication of \<open>float64\<close> values, it is stated for operands on which \<open>float64\<close>
  computes that result exactly. \<open>onGrid k b x\<close> says that \<open>x\<close> is a multiple of \<open>2\<^sup>-\<^sup>k\<close> of
  magnitude at most \<open>2\<^sup>b\<close>. With \<open>k + b \<le> 52\<close> such a number is a \<open>float64\<close>, and so is the
  difference of two of them (\<open>exactRect\<close>; the minimum lengths are only doubled, which is
  exact up to \<open>2\<^sup>1\<^sup>0\<^sup>2\<^sup>2\<close>). With \<open>2 * (k + b) \<le> 49\<close> the product of two of them is a multiple
  of \<open>2\<^sup>-\<^sup>2\<^sup>k\<close> of magnitude at most \<open>2\<^sup>2\<^sup>b\<close>, and every sum of at most nine such products
  has fewer than 53 bits: each operation of \<open>convolve\<close> with a 3 by 3 kernel is then exact
  (\<open>exactConv\<close>). \<open>fits64\<close> says that the exact sum of the weights is an \<open>int\<close> of 64 bits.
\<close>

definition onGrid :: "nat \<Rightarrow> nat \<Rightarrow> real \<Rightarrow> bool" where
  "onGrid k b x = (frac (x * 2 ^ k) = 0 \<and> \<bar>x\<bar> \<le> 2 ^ b)"

definition exactRect :: "nat \<Rightarrow> nat \<Rightarrow> Point \<Rightarrow> Point \<Rightarrow> real \<Rightarrow> real \<Rightarrow> bool" where
  "exactRect k b topLeft bottomRight minX minY =
     (k + b \<le> 52 \<and> onGrid k b (X topLeft) \<and> onGrid k b (Y topLeft)
      \<and> onGrid k b (X bottomRight) \<and> onGrid k b (Y bottomRight)
      \<and> \<bar>minX\<bar> \<le> 2 ^ 1022 \<and> \<bar>minY\<bar> \<le> 2 ^ 1022)"

definition exactConv :: "nat \<Rightarrow> nat \<Rightarrow> real \<Rightarrow> grid \<Rightarrow> bool" where
  "exactConv k b v kernel' =
     (2 * (k + b) \<le> 49 \<and> onGrid k b v \<and> list_all (list_all (onGrid k b)) kernel')"

definition fits64 :: "Point list \<Rightarrow> bool" where
  "fits64 ps = (- (2 ^ 63) \<le> weightSum ps \<and> weightSum ps < 2 ^ 63)"

text \<open>Two points whose weights add up to \<open>2\<^sup>6\<^sup>3\<close>, one more than the largest \<open>int\<close>.\<close>

definition heavy :: "Point list" where
  "heavy = [pt 1 1 (2 ^ 63 - 1), pt 2 2 1]"

section \<open>The trees with the arithmetic taken as a parameter\<close>

text \<open>
  The size test of \<open>checkSplit\<close> and the cut of \<open>split\<close> are computed in \<open>float64\<close>: a
  subtraction and a product for the test; a division, the convolution passes and the
  clamping sums for the cut. \<open>checkSplitBy\<close>, \<open>splitBy\<close>, \<open>InsertBy\<close> and \<open>NewConvTreeBy\<close> are
  \<open>checkSplit\<close>, \<open>split\<close>, \<open>Insert\<close> and \<open>NewConvTree\<close> with these two computations taken as
  parameters: \<open>wide tree\<close> is the answer of the size test (\<open>cond1\<close>) and \<open>cutAt tree\<close> the pair
  \<open>(xRight, yBottom)\<close>, or \<open>None\<close> where the computation panics. Everything else is the text
  of the source. What holds of them for all \<open>wide\<close> and \<open>cutAt\<close> holds of the program however
  its arithmetic rounds, as long as the cuts it computes are numbers and not NaN or
  infinite; \<open>split\<close> is the instance with the exact arithmetic of \<open>splitCut\<close>. The functions
  with the suffix \<open>2By\<close> do the same for the second source.
\<close>

definition checkSplitBy :: "(Node \<Rightarrow> bool) \<Rightarrow> Node \<Rightarrow> bool" where
  "checkSplitBy wide tree =
     (let cond1 = wide tree;
          totalWeight = fold (\<lambda>point totalWeight. totalWeight + Weight point) (Points tree) 0;
          cond2 = sint totalWeight > sint (MaxPoints tree) \<and> Depth tree < MaxDepth tree
      in cond1 \<and> cond2)"

function splitBy ::
  "(Node \<Rightarrow> bool) \<Rightarrow> (Node \<Rightarrow> (real \<times> real) option) \<Rightarrow> ConvTree \<Rightarrow> error + ConvTree" where
  "splitBy wide cutAt (ConvTree tree ctl ctr cbl cbr) =
     (case cutAt tree of
        None \<Rightarrow> Inl Panic
      | Some (xRight, yBottom) \<Rightarrow>
          (let c1 = newChild tree (TopLeft tree) (corner xRight yBottom);
               c2 = newChild tree (corner xRight (Y (TopLeft tree)))
                      (corner (X (BottomRight tree)) yBottom);
               c3 = newChild tree (corner (X (TopLeft tree)) yBottom)
                      (corner xRight (Y (BottomRight tree)));
               c4 = newChild tree (corner xRight yBottom) (BottomRight tree)
           in case (if checkSplitBy wide c1 then splitBy wide cutAt (childless c1)
                    else Inr (childless c1)) of
                Inl e \<Rightarrow> Inl e
              | Inr t1 \<Rightarrow>
             (case (if checkSplitBy wide c2 then splitBy wide cutAt (childless c2)
                    else Inr (childless c2)) of
                Inl e \<Rightarrow> Inl e
              | Inr t2 \<Rightarrow>
             (case (if checkSplitBy wide c3 then splitBy wide cutAt (childless c3)
                    else Inr (childless c3)) of
                Inl e \<Rightarrow> Inl e
              | Inr t3 \<Rightarrow>
             (case (if checkSplitBy wide c4 then splitBy wide cutAt (childless c4)
                    else Inr (childless c4)) of
                Inl e \<Rightarrow> Inl e
              | Inr t4 \<Rightarrow>
                  Inr (ConvTree (tree\<lparr>IsLeaf := False, Points := []\<rparr>)
                         (Some t1) (Some t2) (Some t3) (Some t4)))))))"
  by pat_completeness auto
termination
  by (relation "measure (\<lambda>(wide, cutAt, t). nat (MaxDepth (node t) - Depth (node t)))")
    (auto simp: checkSplitBy_def newChild_def childless_def Let_def)

definition NewConvTreeBy ::
  "(Node \<Rightarrow> bool) \<Rightarrow> (Node \<Rightarrow> (real \<times> real) option) \<Rightarrow> Point \<Rightarrow> Point \<Rightarrow> real \<Rightarrow> real
   \<Rightarrow> 64 word \<Rightarrow> int \<Rightarrow> int \<Rightarrow> int \<Rightarrow> grid \<Rightarrow> Point list \<Rightarrow> error + ConvTree" where
  "NewConvTreeBy wide cutAt topLeft bottomRight minX minY maxP maxD convNumber
     gridSize kernel' initPoints =
     (if X topLeft \<ge> X bottomRight
        then Inl (Error ''X of top left point is larger or equal to X of bottom right point'')
      else if Y topLeft \<ge> Y bottomRight
        then Inl (Error ''Y of top left point is larger or equal to Y of bottom right point'')
      else
        let kernel' = (if \<not> checkKernel kernel' then defaultKernel else kernel');
            tree = \<lparr>IsLeaf = True, MaxPoints = maxP, MaxDepth = maxD, Depth = 0,
                    GridSize = gridSize, ConvNum = convNumber, Kernel = kernel',
                    Points = initPoints, MinXLength = minX, MinYLength = minY,
                    TopLeft = topLeft, BottomRight = bottomRight, BaselineTags = []\<rparr>
        in if checkSplitBy wide tree then splitBy wide cutAt (childless tree)
           else Inr (childless tree))"

fun InsertBy ::
  "(Node \<Rightarrow> bool) \<Rightarrow> (Node \<Rightarrow> (real \<times> real) option) \<Rightarrow> ConvTree \<Rightarrow> Point \<Rightarrow> bool
   \<Rightarrow> error + ConvTree" where
  "InsertBy wide cutAt (ConvTree tree ctl ctr cbl cbr) point allowSplit =
     (if \<not> IsLeaf tree then
        (case ctl of None \<Rightarrow> Inl Panic | Some c1 \<Rightarrow>
           if contains c1 point then
             (case InsertBy wide cutAt c1 point allowSplit of
                Inl e \<Rightarrow> Inl e
              | Inr c1' \<Rightarrow> Inr (ConvTree tree (Some c1') ctr cbl cbr))
           else
        (case ctr of None \<Rightarrow> Inl Panic | Some c2 \<Rightarrow>
           if contains c2 point then
             (case InsertBy wide cutAt c2 point allowSplit of
                Inl e \<Rightarrow> Inl e
              | Inr c2' \<Rightarrow> Inr (ConvTree tree ctl (Some c2') cbl cbr))
           else
        (case cbl of None \<Rightarrow> Inl Panic | Some c3 \<Rightarrow>
           if contains c3 point then
             (case InsertBy wide cutAt c3 point allowSplit of
                Inl e \<Rightarrow> Inl e
              | Inr c3' \<Rightarrow> Inr (ConvTree tree ctl ctr (Some c3') cbr))
           else
        (case cbr of None \<Rightarrow> Inl Panic | Some c4 \<Rightarrow>
           if contains c4 point then
             (case InsertBy wide cutAt c4 point allowSplit of
                Inl e \<Rightarrow> Inl e
              | Inr c4' \<Rightarrow> Inr (ConvTree tree ctl ctr cbl (Some c4')))
           else Inr (ConvTree tree ctl ctr cbl cbr)))))
      else
        (let tree = tree\<lparr>Points := Points tree @ [point]\<rparr> in
         if allowSplit then
           (if checkSplitBy wide tree then splitBy wide cutAt (ConvTree tree ctl ctr cbl cbr)
            else Inr (ConvTree tree ctl ctr cbl cbr))
         else Inr (ConvTree tree ctl ctr cbl cbr)))"

text \<open>The size tests of the two sources in exact arithmetic, as \<open>checkSplit\<close> has them.\<close>

definition wideExact :: "Node \<Rightarrow> bool" where
  "wideExact tree = (X (BottomRight tree) - X (TopLeft tree) > 2 * MinXLength tree
                     \<and> Y (BottomRight tree) - Y (TopLeft tree) > 2 * MinYLength tree)"

definition wideExact2 :: "Node \<Rightarrow> bool" where
  "wideExact2 tree = (X (BottomRight tree) - X (TopLeft tree) > 2 * MinXLength tree
                      \<and> Y (TopLeft tree) - Y (BottomRight tree) > 2 * MinYLength tree)"

subsection \<open>Where the points of a tree are\<close>

text \<open>
  \<open>covers n p\<close> is the closed-rectangle test that \<open>filterSplitPoints\<close> and \<open>Insert\<close> make
  (\<open>covers2\<close> with the Y axis of the second source), and \<open>leafPoints\<close> lists the points of
  all leaves. The cut of a split node is the bottom-right corner of its top-left child;
  \<open>offCuts t ps\<close> says that no point of \<open>ps\<close> inside a split node of \<open>t\<close> has the \<open>X\<close> or
  the \<open>Y\<close> of that node's cut. \<open>tiled\<close> says that the four children of every split node
  are the four rectangles around its cut, and \<open>housed\<close> that every leaf covers its own
  points.
\<close>

definition covers :: "Node \<Rightarrow> Point \<Rightarrow> bool" where
  "covers n p = (X p \<ge> X (TopLeft n) \<and> X p \<le> X (BottomRight n)
                 \<and> Y p \<ge> Y (TopLeft n) \<and> Y p \<le> Y (BottomRight n))"

definition leafPoints :: "ConvTree \<Rightarrow> Point list" where
  "leafPoints t = concat (map Points (leaves t))"

definition offCut :: "Node \<Rightarrow> Node \<Rightarrow> Point \<Rightarrow> bool" where
  "offCut n c1 p = (covers n p \<longrightarrow> X p \<noteq> X (BottomRight c1) \<and> Y p \<noteq> Y (BottomRight c1))"

fun offCuts :: "ConvTree \<Rightarrow> Point list \<Rightarrow> bool" where
  "offCuts (ConvTree n a b c d) ps =
     (IsLeaf n \<or>
      ((case a of None \<Rightarrow> True | Some t \<Rightarrow> list_all (offCut n (node t)) ps \<and> offCuts t ps)
       \<and> (case b of None \<Rightarrow> True | Some t \<Rightarrow> offCuts t ps)
       \<and> (case c of None \<Rightarrow> True | Some t \<Rightarrow> offCuts t ps)
       \<and> (case d of None \<Rightarrow> True | Some t \<Rightarrow> offCuts t ps)))"

definition quarters :: "Node \<Rightarrow> Node \<Rightarrow> Node \<Rightarrow> Node \<Rightarrow> Node \<Rightarrow> bool" where
  "quarters n c1 c2 c3 c4 =
     (let xRight = X (BottomRight c1); yBottom = Y (BottomRight c1) in
      X (TopLeft c1) = X (TopLeft n) \<and> Y (TopLeft c1) = Y (TopLeft n)
      \<and> X (TopLeft c2) = xRight \<and> Y (TopLeft c2) = Y (TopLeft n)
      \<and> X (BottomRight c2) = X (BottomRight n) \<and> Y (BottomRight c2) = yBottom
      \<and> X (TopLeft c3) = X (TopLeft n) \<and> Y (TopLeft c3) = yBottom
      \<and> X (BottomRight c3) = xRight \<and> Y (BottomRight c3) = Y (BottomRight n)
      \<and> X (TopLeft c4) = xRight \<and> Y (TopLeft c4) = yBottom
      \<and> X (BottomRight c4) = X (BottomRight n) \<and> Y (BottomRight c4) = Y (BottomRight n))"

fun tiled :: "ConvTree \<Rightarrow> bool" where
  "tiled (ConvTree n a b c d) =
     (IsLeaf n \<or>
      (case a of None \<Rightarrow> False | Some t1 \<Rightarrow>
       case b of None \<Rightarrow> False | Some t2 \<Rightarrow>
       case c of None \<Rightarrow> False | Some t3 \<Rightarrow>
       case d of None \<Rightarrow> False | Some t4 \<Rightarrow>
         quarters n (node t1) (node t2) (node t3) (node t4)
         \<and> tiled t1 \<and> tiled t2 \<and> tiled t3 \<and> tiled t4))"

definition housed :: "ConvTree \<Rightarrow> bool" where
  "housed t = list_all (\<lambda>n. list_all (covers n) (Points n)) (leaves t)"

text \<open>
  \<open>freshCuts t t' p\<close> compares a tree \<open>t\<close> with the tree \<open>t'\<close> that an insertion of \<open>p\<close> has
  made of it: where a leaf of \<open>t\<close> has become a split node, no point that the leaf held,
  nor \<open>p\<close>, is on a cut line of the nodes that have taken its place. \<open>insertAllBy\<close> runs a
  sequence of \<open>InsertBy\<close> calls, stopping at the first that panics, and \<open>freshRun\<close> says
  that \<open>freshCuts\<close> holds at every call of the sequence.
\<close>

fun freshCuts :: "ConvTree \<Rightarrow> ConvTree \<Rightarrow> Point \<Rightarrow> bool" where
  "freshCuts (ConvTree n a b c d) (ConvTree n' a' b' c' d') p =
     (if IsLeaf n then offCuts (ConvTree n' a' b' c' d') (Points n @ [p])
      else (case a of None \<Rightarrow> True | Some t \<Rightarrow> (case a' of None \<Rightarrow> True | Some t' \<Rightarrow> freshCuts t t' p))
         \<and> (case b of None \<Rightarrow> True | Some t \<Rightarrow> (case b' of None \<Rightarrow> True | Some t' \<Rightarrow> freshCuts t t' p))
         \<and> (case c of None \<Rightarrow> True | Some t \<Rightarrow> (case c' of None \<Rightarrow> True | Some t' \<Rightarrow> freshCuts t t' p))
         \<and> (case d of None \<Rightarrow> True | Some t \<Rightarrow> (case d' of None \<Rightarrow> True | Some t' \<Rightarrow> freshCuts t t' p)))"

fun insertAllBy ::
  "(Node \<Rightarrow> bool) \<Rightarrow> (Node \<Rightarrow> (real \<times> real) option) \<Rightarrow> ConvTree \<Rightarrow> (Point \<times> bool) list
   \<Rightarrow> error + ConvTree" where
  "insertAllBy wide cutAt t [] = Inr t"
| "insertAllBy wide cutAt t ((point, allowSplit) # rest) =
     (case InsertBy wide cutAt t point allowSplit of
        Inl e \<Rightarrow> Inl e
      | Inr t' \<Rightarrow> insertAllBy wide cutAt t' rest)"

fun freshRun ::
  "(Node \<Rightarrow> bool) \<Rightarrow> (Node \<Rightarrow> (real \<times> real) option) \<Rightarrow> ConvTree \<Rightarrow> (Point \<times> bool) list
   \<Rightarrow> bool" where
  "freshRun wide cutAt t [] = True"
| "freshRun wide cutAt t ((point, allowSplit) # rest) =
     (case InsertBy wide cutAt t point allowSplit of
        Inl e \<Rightarrow> True
      | Inr t' \<Rightarrow> freshCuts t t' point \<and> freshRun wide cutAt t' rest)"

definition growBy :: "(Node \<Rightarrow> bool) \<Rightarrow> (Node \<Rightarrow> (real \<times> real) option) \<Rightarrow> Node \<Rightarrow> error + ConvTree" where
  "growBy wide cutAt c = (if checkSplitBy wide c then splitBy wide cutAt (childless c) else Inr (childless c))"

subsection \<open>The second source\<close>

text \<open>
  The same for the second source: its \<open>split\<close> seeds a child that is not split further
  with the baseline tags, its \<open>NewConvTree\<close> has the Y test the other way round, and its
  rectangle test \<open>covers2\<close> has the greater Y on top.
\<close>

function split2By ::
  "(Node \<Rightarrow> bool) \<Rightarrow> (Node \<Rightarrow> (real \<times> real) option) \<Rightarrow> ConvTree \<Rightarrow> error + ConvTree" where
  "split2By wide cutAt (ConvTree tree ctl ctr cbl cbr) =
     (case cutAt tree of
        None \<Rightarrow> Inl Panic
      | Some (xRight, yBottom) \<Rightarrow>
          (let c1 = newChild2 tree (TopLeft tree) (corner xRight yBottom);
               c2 = newChild2 tree (corner xRight (Y (TopLeft tree)))
                      (corner (X (BottomRight tree)) yBottom);
               c3 = newChild2 tree (corner (X (TopLeft tree)) yBottom)
                      (corner xRight (Y (BottomRight tree)));
               c4 = newChild2 tree (corner xRight yBottom) (BottomRight tree)
           in case (if checkSplitBy wide c1 then split2By wide cutAt (childless c1)
                    else Inr (seeded tree c1)) of
                Inl e \<Rightarrow> Inl e
              | Inr t1 \<Rightarrow>
             (case (if checkSplitBy wide c2 then split2By wide cutAt (childless c2)
                    else Inr (seeded tree c2)) of
                Inl e \<Rightarrow> Inl e
              | Inr t2 \<Rightarrow>
             (case (if checkSplitBy wide c3 then split2By wide cutAt (childless c3)
                    else Inr (seeded tree c3)) of
                Inl e \<Rightarrow> Inl e
              | Inr t3 \<Rightarrow>
             (case (if checkSplitBy wide c4 then split2By wide cutAt (childless c4)
                    else Inr (seeded tree c4)) of
                Inl e \<Rightarrow> Inl e
              | Inr t4 \<Rightarrow>
                  Inr (ConvTree (tree\<lparr>IsLeaf := False, Points := []\<rparr>)
                         (Some t1) (Some t2) (Some t3) (Some t4)))))))"
  by pat_completeness auto
termination
  by (relation "measure (\<lambda>(wide, cutAt, t). nat (MaxDepth (node t) - Depth (node t)))")
    (auto simp: checkSplitBy_def newChild2_def childless_def Let_def)

definition NewConvTree2By ::
  "(Node \<Rightarrow> bool) \<Rightarrow> (Node \<Rightarrow> (real \<times> real) option) \<Rightarrow> Point \<Rightarrow> Point \<Rightarrow> real \<Rightarrow> real
   \<Rightarrow> 64 word \<Rightarrow> int \<Rightarrow> int \<Rightarrow> int \<Rightarrow> grid \<Rightarrow> Point list \<Rightarrow> error + ConvTree" where
  "NewConvTree2By wide cutAt topLeft bottomRight minX minY maxP maxD convNumber
     gridSize kernel' initPoints =
     (if X topLeft \<ge> X bottomRight
        then Inl (Error ''X of top left point is larger or equal to X of bottom right point'')
      else if Y topLeft \<le> Y bottomRight
        then Inl (Error ''Y of bottom right point is larger or equal to Y of top left point'')
      else
        let kernel' = (if \<not> checkKernel kernel' then defaultKernel else kernel');
            tree = \<lparr>IsLeaf = True, MaxPoints = maxP, MaxDepth = maxD, Depth = 0,
                    GridSize = gridSize, ConvNum = convNumber, Kernel = kernel',
                    Points = initPoints, MinXLength = minX, MinYLength = minY,
                    TopLeft = topLeft, BottomRight = bottomRight, BaselineTags = []\<rparr>
        in if checkSplitBy wide tree then split2By wide cutAt (childless tree)
           else Inr (childless (getBaseline tree)))"

fun Insert2By ::
  "(Node \<Rightarrow> bool) \<Rightarrow> (Node \<Rightarrow> (real \<times> real) option) \<Rightarrow> ConvTree \<Rightarrow> Point \<Rightarrow> bool
   \<Rightarrow> error + ConvTree" where
  "Insert2By wide cutAt (ConvTree tree ctl ctr cbl cbr) point allowSplit =
     (if \<not> IsLeaf tree then
        (case ctl of None \<Rightarrow> Inl Panic | Some c1 \<Rightarrow>
           if contains2 c1 point then
             (case Insert2By wide cutAt c1 point allowSplit of
                Inl e \<Rightarrow> Inl e
              | Inr c1' \<Rightarrow> Inr (ConvTree tree (Some c1') ctr cbl cbr))
           else
        (case ctr of None \<Rightarrow> Inl Panic | Some c2 \<Rightarrow>
           if contains2 c2 point then
             (case Insert2By wide cutAt c2 point allowSplit of
                Inl e \<Rightarrow> Inl e
              | Inr c2' \<Rightarrow> Inr (ConvTree tree ctl (Some c2') cbl cbr))
           else
        (case cbl of None \<Rightarrow> Inl Panic | Some c3 \<Rightarrow>
           if contains2 c3 point then
             (case Insert2By wide cutAt c3 point allowSplit of
                Inl e \<Rightarrow> Inl e
              | Inr c3' \<Rightarrow> Inr (ConvTree tree ctl ctr (Some c3') cbr))
           else
        (case cbr of None \<Rightarrow> Inl Panic | Some c4 \<Rightarrow>
           if contains2 c4 point then
             (case Insert2By wide cutAt c4 point allowSplit of
                Inl e \<Rightarrow> Inl e
              | Inr c4' \<Rightarrow> Inr (ConvTree tree ctl ctr cbl (Some c4')))
           else Inr (ConvTree tree ctl ctr cbl cbr)))))
      else
        (let tree = tree\<lparr>Points := Points tree @ [point]\<rparr> in
         if allowSplit then
           (if checkSplitBy wide tree then split2By wide cutAt (ConvTree tree ctl ctr cbl cbr)
            else Inr (ConvTree tree ctl ctr cbl cbr))
         else Inr (ConvTree tree ctl ctr cbl cbr)))"

definition covers2 :: "Node \<Rightarrow> Point \<Rightarrow> bool" where
  "covers2 n p = (X p \<ge> X (TopLeft n) \<and> X p \<le> X (BottomRight n)
                  \<and> Y p \<ge> Y (BottomRight n) \<and> Y p \<le> Y (TopLeft n))"

definition offCut2 :: "Node \<Rightarrow> Node \<Rightarrow> Point \<Rightarrow> bool" where
  "offCut2 n c1 p = (covers2 n p \<longrightarrow> X p \<noteq> X (BottomRight c1) \<and> Y p \<noteq> Y (BottomRight c1))"

fun offCuts2 :: "ConvTree \<Rightarrow> Point list \<Rightarrow> bool" where
  "offCuts2 (ConvTree n a b c d) ps =
     (IsLeaf n \<or>
      ((case a of None \<Rightarrow> True | Some t \<Rightarrow> list_all (offCut2 n (node t)) ps \<and> offCuts2 t ps)
       \<and> (case b of None \<Rightarrow> True | Some t \<Rightarrow> offCuts2 t ps)
       \<and> (case c of None \<Rightarrow> True | Some t \<Rightarrow> offCuts2 t ps)
       \<and> (case d of None \<Rightarrow> True | Some t \<Rightarrow> offCuts2 t ps)))"

definition housed2 :: "ConvTree \<Rightarrow> bool" where
  "housed2 t = list_all (\<lambda>n. list_all (covers2 n) (Points n)) (leaves t)"

fun freshCuts2 :: "ConvTree \<Rightarrow> ConvTree \<Rightarrow> Point \<Rightarrow> bool" where
  "freshCuts2 (ConvTree n a b c d) (ConvTree n' a' b' c' d') p =
     (if IsLeaf n then offCuts2 (ConvTree n' a' b' c' d') (Points n @ [p])
      else (case a of None \<Rightarrow> True | Some t \<Rightarrow> (case a' of None \<Rightarrow> True | Some t' \<Rightarrow> freshCuts2 t t' p))
         \<and> (case b of None \<Rightarrow> True | Some t \<Rightarrow> (case b' of None \<Rightarrow> True | Some t' \<Rightarrow> freshCuts2 t t' p))
         \<and> (case c of None \<Rightarrow> True | Some t \<Rightarrow> (case c' of None \<Rightarrow> True | Some t' \<Rightarrow> freshCuts2 t t' p))
         \<and> (case d of None \<Rightarrow> True | Some t \<Rightarrow> (case d' of None \<Rightarrow> True | Some t' \<Rightarrow> freshCuts2 t t' p)))"

fun insertAll2By ::
  "(Node \<Rightarrow> bool) \<Rightarrow> (Node \<Rightarrow> (real \<times> real) option) \<Rightarrow> ConvTree \<Rightarrow> (Point \<times> bool) list
   \<Rightarrow> error + ConvTree" where
  "insertAll2By wide cutAt t [] = Inr t"
| "insertAll2By wide cutAt t ((point, allowSplit) # rest) =
     (case Insert2By wide cutAt t point allowSplit of
        Inl e \<Rightarrow> Inl e
      | Inr t' \<Rightarrow> insertAll2By wide cutAt t' rest)"

fun freshRun2 ::
  "(Node \<Rightarrow> bool) \<Rightarrow> (Node \<Rightarrow> (real \<times> real) option) \<Rightarrow> ConvTree \<Rightarrow> (Point \<times> bool) list
   \<Rightarrow> bool" where
  "freshRun2 wide cutAt t [] = True"
| "freshRun2 wide cutAt t ((point, allowSplit) # rest) =
     (case Insert2By wide cutAt t point allowSplit of
        Inl e \<Rightarrow> True
      | Inr t' \<Rightarrow> freshCuts2 t t' point \<and> freshRun2 wide cutAt t' rest)"

definition grow2By ::
  "(Node \<Rightarrow> bool) \<Rightarrow> (Node \<Rightarrow> (real \<times> real) option) \<Rightarrow> Node \<Rightarrow> Node \<Rightarrow> error + ConvTree" where
  "grow2By wide cutAt tree c =
     (if checkSplitBy wide c then split2By wide cutAt (childless c) else Inr (seeded tree c))"

section \<open>Loop rules\<close>

lemma foldM_invariant:
  assumes "I s" and "\<And>x s. x \<in> set xs \<Longrightarrow> I s \<Longrightarrow> \<exists>s'. f x s = Some s' \<and> I s'"
  shows "\<exists>s'. foldM f xs s = Some s' \<and> I s'"
  using assms
proof (induction xs arbitrary: s)
  case Nil
  then show ?case by simp
next
  case (Cons a xs)
  from Cons.prems obtain s1 where s1: "f a s = Some s1" "I s1"
    by (meson list.set_intros(1))
  have "\<exists>s'. foldM f xs s1 = Some s' \<and> I s'"
    by (rule Cons.IH [OF s1(2)]) (simp add: Cons.prems(2))
  with s1 show ?case by simp
qed

lemma forRange_invariant:
  assumes "I s" and "\<And>i s. a \<le> i \<Longrightarrow> i < b \<Longrightarrow> I s \<Longrightarrow> \<exists>s'. body i s = Some s' \<and> I s'"
  shows "\<exists>s'. forRange a b body s = Some s' \<and> I s'"
  unfolding forRange_def
  by (rule foldM_invariant [where I = I, OF assms(1)]) (simp add: assms(2))

lemma foldM_prefix:
  assumes "foldM f xs s = Some s'" and "P pre s"
    and "\<And>p x s s1. P p s \<Longrightarrow> x \<in> set xs \<Longrightarrow> f x s = Some s1 \<Longrightarrow> P (p @ [x]) s1"
  shows "P (pre @ xs) s'"
  using assms
proof (induction xs arbitrary: pre s)
  case Nil
  then show ?case by simp
next
  case (Cons a xs)
  from Cons.prems(1) obtain s1 where s1: "f a s = Some s1" "foldM f xs s1 = Some s'"
    by (auto split: option.splits)
  have "P (pre @ [a]) s1" using Cons.prems(2,3) s1(1) by simp
  then have "P ((pre @ [a]) @ xs) s'"
    using s1(2) Cons.prems(3) by (intro Cons.IH [where s = s1]) auto
  then show ?case by simp
qed

lemma forRange_prefix:
  assumes "forRange a b body s = Some s'" and "P [] s"
    and "\<And>p i s s1. P p s \<Longrightarrow> body i s = Some s1 \<Longrightarrow> P (p @ [i]) s1"
  shows "P [a..b - 1] s'"
  using foldM_prefix [where P = P and pre = "[]", OF assms(1) [unfolded forRange_def] assms(2)] assms(3)
  by simp

lemma getAt_Some: "0 \<le> i \<Longrightarrow> i < len xs \<Longrightarrow> getAt xs i = Some (xs ! nat i)"
  by (simp add: getAt_def)

lemma getAt0: "grid \<noteq> [] \<Longrightarrow> getAt grid 0 = Some (hd grid)"
  by (cases grid) (simp_all add: getAt_def len_def)

lemma cell_rect:
  "rect grid \<Longrightarrow> 0 \<le> i \<Longrightarrow> i < len grid \<Longrightarrow> 0 \<le> j \<Longrightarrow> j < len (hd grid)
   \<Longrightarrow> cell grid i j = Some (grid ! nat i ! nat j)"
  by (simp add: cell_def getAt_def rect_def len_def)

lemma ncols_getAt0: "getAt grid 0 = Some r0 \<Longrightarrow> ncols grid = len r0"
  by (cases grid) (auto simp: getAt_def ncols_def len_def)

section \<open>The split-point search returns\<close>

lemma findMax_ok:
  assumes "grid \<noteq> []" "rect grid"
  shows "\<exists>maxX maxY maxValue. findMax grid = Some (maxX, maxY, maxValue) \<and> maxOK grid maxX maxY"
proof -
  define I :: "int \<times> int \<times> real \<Rightarrow> bool" where "I = (\<lambda>(mx, my, mv). maxOK grid mx my)"
  have "\<exists>s'. findMax grid = Some s' \<and> I s'"
    unfolding findMax_def
    apply (rule forRange_invariant [where I = I])
    subgoal using assms by (simp add: I_def maxOK_def len_def)
    subgoal for i s
      unfolding getAt0 [OF assms(1)] bind.simps
      apply (rule forRange_invariant [where I = I])
      subgoal by assumption
      subgoal for j s'
        by (auto simp: I_def cell_rect [OF assms(2)] maxOK_def split: prod.splits)
      done
    done
  then show ?thesis by (auto simp: I_def)
qed

lemma scanLeft_ok:
  assumes "grid \<noteq> []" "rect grid" "maxOK grid maxX maxY" "1 \<le> counter" "quiet grid counter st"
  shows "\<exists>st'. scanLeft grid maxX maxY counter splitValue st = Some st' \<and> quiet grid counter st'"
proof (cases "maxX - counter \<ge> 0")
  case False
  then show ?thesis using assms(5) by (simp add: scanLeft_def)
next
  case True
  have i: "0 \<le> maxX - counter" "maxX - counter < len grid" "counter < len grid"
    using True assms(3,4) by (auto simp: maxOK_def)
  show ?thesis
    unfolding scanLeft_def Let_def if_P [OF True]
    apply (rule forRange_invariant [where I = "quiet grid counter", OF assms(5)])
    subgoal for j s
      using i(3) cell_rect [OF assms(2) i(1,2), of j]
      by (cases s) (auto simp: getAt0 [OF assms(1)] quiet_def)
    done
qed

lemma scanRight_ok:
  assumes "grid \<noteq> []" "rect grid" "maxOK grid maxX maxY" "1 \<le> counter" "quiet grid counter st"
  shows "\<exists>st'. scanRight grid maxX maxY counter splitValue st = Some st' \<and> quiet grid counter st'"
proof (cases "maxX + counter < len grid")
  case False
  then show ?thesis using assms(5) by (simp add: scanRight_def)
next
  case True
  have i: "0 \<le> maxX + counter" "maxX + counter < len grid" "counter < len grid"
    using True assms(3,4) by (auto simp: maxOK_def)
  show ?thesis
    unfolding scanRight_def Let_def if_P [OF True]
    apply (rule forRange_invariant [where I = "quiet grid counter", OF assms(5)])
    subgoal for j s
      using i(3) cell_rect [OF assms(2) i(1,2), of j]
      by (cases s) (auto simp: getAt0 [OF assms(1)] quiet_def)
    done
qed

lemma scanTop_ok:
  assumes "grid \<noteq> []" "rect grid" "maxOK grid maxX maxY" "1 \<le> counter" "quiet grid counter st"
  shows "\<exists>st'. scanTop grid maxX maxY counter splitValue st = Some st' \<and> quiet grid counter st'"
proof (cases "maxY - counter \<ge> 0")
  case False
  then show ?thesis using assms(5) by (simp add: scanTop_def)
next
  case True
  have i: "0 \<le> maxY - counter" "maxY - counter < len (hd grid)" "counter < len (hd grid)"
    using True assms(3,4) by (auto simp: maxOK_def)
  show ?thesis
    unfolding scanTop_def Let_def if_P [OF True]
    apply (rule forRange_invariant [where I = "quiet grid counter", OF assms(5)])
    subgoal for j s
      using i(3) cell_rect [OF assms(2) _ _ i(1,2), of j]
      by (cases s) (auto simp: quiet_def)
    done
qed

lemma scanBottom_ok:
  assumes "grid \<noteq> []" "rect grid" "maxOK grid maxX maxY" "1 \<le> counter" "quiet grid counter st"
  shows "\<exists>st'. scanBottom grid maxX maxY counter splitValue st = Some st' \<and> quiet grid counter st'"
proof (cases "maxY + counter < len (hd grid)")
  case False
  then show ?thesis using assms(5) by (simp add: scanBottom_def getAt0 [OF assms(1)])
next
  case True
  have i: "0 \<le> maxY + counter" "maxY + counter < len (hd grid)" "counter < len (hd grid)"
    using True assms(3,4) by (auto simp: maxOK_def)
  show ?thesis
    unfolding scanBottom_def Let_def getAt0 [OF assms(1)] bind.simps if_P [OF True]
    apply (rule forRange_invariant [where I = "quiet grid counter", OF assms(5)])
    subgoal for j s
      using i(3) cell_rect [OF assms(2) _ _ i(1,2), of j]
      by (cases s) (auto simp: quiet_def)
    done
qed

lemma scanRings_ok:
  assumes "grid \<noteq> []" "rect grid" "maxOK grid maxX maxY" "1 \<le> counter"
  shows "\<exists>st'. scanRings grid maxX maxY counter splitValue = Some st' \<and> quiet grid counter st'"
proof -
  have q0: "quiet grid counter (False, 0, 0, [])" by (simp add: quiet_def)
  from scanLeft_ok [OF assms q0] obtain s1
    where s1: "scanLeft grid maxX maxY counter splitValue (False, 0, 0, []) = Some s1"
      "quiet grid counter s1" by blast
  from scanRight_ok [OF assms s1(2)] obtain s2
    where s2: "scanRight grid maxX maxY counter splitValue s1 = Some s2" "quiet grid counter s2"
    by blast
  from scanTop_ok [OF assms s2(2)] obtain s3
    where s3: "scanTop grid maxX maxY counter splitValue s2 = Some s3" "quiet grid counter s3"
    by blast
  from scanBottom_ok [OF assms s3(2)] obtain s4
    where s4: "scanBottom grid maxX maxY counter splitValue s3 = Some s4" "quiet grid counter s4"
    by blast
  show ?thesis using s1 s2 s3 s4 by (simp add: scanRings_def)
qed

lemma searchLoop_returns:
  assumes "grid \<noteq> []" "rect grid" "maxOK grid maxX maxY" "1 \<le> counter"
  shows "\<exists>r. searchLoop grid maxX maxY splitValue counter splitX splitY = Some r"
  using assms(4)
proof (induction "nat (len grid + len (hd grid) - counter)"
    arbitrary: counter splitValue splitX splitY rule: less_induct)
  case less
  from scanRings_ok [OF assms(1-3) less.prems, of splitValue] obtain itemFound x y vals
    where st: "scanRings grid maxX maxY counter splitValue = Some (itemFound, x, y, vals)"
      "quiet grid counter (itemFound, x, y, vals)"
    by (metis prod_cases4)
  show ?case
  proof (cases itemFound)
    case False
    then show ?thesis by (subst searchLoop.simps) (simp add: st(1))
  next
    case True
    with st(2) have lt: "counter < len grid \<or> counter < len (hd grid)" by (simp add: quiet_def)
    have "\<exists>r. searchLoop grid maxX maxY (mean vals * (8 / 10)) (counter + 1)
            (if x \<noteq> 0 then x else splitX) (if y \<noteq> 0 then y else splitY) = Some r"
      by (rule less.hyps) (use lt less.prems in \<open>auto simp: len_def\<close>)
    then show ?thesis using True by (subst searchLoop.simps) (simp add: st(1))
  qed
qed

text \<open>
  C10. For every non-empty rectangular grid \<open>getSplitPoint\<close> returns a pair: the search
  loop neither panics nor runs forever. The reason is the second part: once \<open>counter\<close>
  has reached both grid sizes, a pass over the four rings finds no item, whatever the
  threshold.
\<close>

theorem getSplitPoint_terminates:
  assumes "grid \<noteq> []" and "rect grid"
  shows "(\<exists>splitX splitY. getSplitPoint grid = Some (splitX, splitY))
    \<and> (\<forall>maxX maxY maxValue counter splitValue.
          findMax grid = Some (maxX, maxY, maxValue) \<and> 1 \<le> counter
            \<and> len grid \<le> counter \<and> ncols grid \<le> counter
          \<longrightarrow> (\<exists>x y vals. scanRings grid maxX maxY counter splitValue = Some (False, x, y, vals)))"
proof -
  note r = assms(2)
  from findMax_ok [OF assms(1) r] obtain maxX maxY maxValue
    where m: "findMax grid = Some (maxX, maxY, maxValue)" "maxOK grid maxX maxY" by blast
  from searchLoop_returns [OF assms(1) r m(2), of 1 "maxValue * (8 / 10)" 0 0]
  obtain splitX splitY
    where "searchLoop grid maxX maxY (maxValue * (8 / 10)) 1 0 0 = Some (splitX, splitY)"
    by auto
  then have 1: "\<exists>splitX splitY. getSplitPoint grid = Some (splitX, splitY)"
    using m(1) by (simp add: getSplitPoint_def)
  have n: "ncols grid = len (hd grid)" using assms(1) by (cases grid) (simp_all add: ncols_def)
  have 2: "\<exists>x y vals. scanRings grid maxX maxY counter splitValue = Some (False, x, y, vals)"
    if "1 \<le> counter" "len grid \<le> counter" "ncols grid \<le> counter" for counter splitValue
  proof -
    from scanRings_ok [OF assms(1) r m(2) that(1), of splitValue] obtain st
      where st: "scanRings grid maxX maxY counter splitValue = Some st" "quiet grid counter st"
      by blast
    obtain f x y vals where s: "st = (f, x, y, vals)" by (cases st)
    from st(2) that(2,3) have "\<not> f" by (simp add: s quiet_def n)
    with st(1) s show ?thesis by simp
  qed
  show ?thesis using 1 2 m(1) by simp
qed

theorem getSplitPoint_terminates_witness:
  "ridge \<noteq> [] \<and> rect ridge
   \<and> (\<exists>splitX splitY. getSplitPoint ridge = Some (splitX, splitY))"
proof -
  have a: "ridge \<noteq> []" by (simp add: ridge_def)
  have b: "rect ridge" by (simp add: ridge_def rect_def)
  from getSplitPoint_terminates [OF a b] a b show ?thesis by blast
qed

section \<open>Which ring coordinate a pass keeps\<close>

lemma abs_real_of_int_less:
  "(\<bar>real_of_int a\<bar> > \<bar>real_of_int b\<bar>) = (\<bar>b\<bar> < \<bar>a\<bar>)"
  by linarith

lemma scanLeft_xy:
  assumes "scanLeft grid maxX maxY counter splitValue (f, x, y, vs) = Some (f', x', y', vs')"
  shows "y' = y \<and> x' = (if hitColumn grid (maxX - counter) maxY counter splitValue
                        then maxX - counter else x)"
proof (cases "maxX - counter \<ge> 0")
  case False
  then show ?thesis using assms by (simp add: scanLeft_def hitColumn_def)
next
  case True
  define i where "i = maxX - counter"
  define P :: "int list \<Rightarrow> scan \<Rightarrow> bool" where
    "P = (\<lambda>p (f1, x1, y1, vs1). y1 = y \<and>
          x1 = (if \<exists>j \<in> set p. 0 \<le> j \<and> j < ncols grid \<and> exceeds grid i j splitValue then i else x))"
  have "P [maxY - counter..maxY + counter + 1 - 1] (f', x', y', vs')"
    apply (rule forRange_prefix [where P = P, OF assms [unfolded scanLeft_def Let_def if_P [OF True]]])
    subgoal by (simp add: P_def)
    subgoal for p j s s1
      by (cases s; cases s1)
        (auto simp: P_def i_def exceeds_def ncols_getAt0 split: if_splits Option.bind_splits)
    done
  then have "y' = y \<and> x' = (if \<exists>j \<in> set [maxY - counter..maxY + counter].
       0 \<le> j \<and> j < ncols grid \<and> exceeds grid i j splitValue then i else x)"
    by (simp add: P_def)
  moreover have "i < len grid \<or> \<not> (\<exists>j \<in> set [maxY - counter..maxY + counter].
       0 \<le> j \<and> j < ncols grid \<and> exceeds grid i j splitValue)"
    by (auto simp: exceeds_def cell_def getAt_def split: option.splits)
  ultimately show ?thesis using True by (auto simp: hitColumn_def i_def)
qed

lemma scanRight_xy:
  assumes "scanRight grid maxX maxY counter splitValue (f, x, y, vs) = Some (f', x', y', vs')"
  shows "y' = y \<and> x' = (if hitColumn grid (maxX + counter) maxY counter splitValue
                        then nearer (quot (len grid) 2) x (maxX + counter) else x)"
proof (cases "maxX + counter < len grid")
  case False
  then show ?thesis using assms by (simp add: scanRight_def hitColumn_def)
next
  case True
  define i where "i = maxX + counter"
  define P :: "int list \<Rightarrow> scan \<Rightarrow> bool" where
    "P = (\<lambda>p (f1, x1, y1, vs1). y1 = y \<and>
          x1 = (if \<exists>j \<in> set p. 0 \<le> j \<and> j < ncols grid \<and> exceeds grid i j splitValue
                then nearer (quot (len grid) 2) x i else x))"
  have "P [maxY - counter..maxY + counter + 1 - 1] (f', x', y', vs')"
    apply (rule forRange_prefix [where P = P, OF assms [unfolded scanRight_def Let_def if_P [OF True]]])
    subgoal by (simp add: P_def)
    subgoal for p j s s1
      by (cases s; cases s1)
        (auto simp: P_def i_def exceeds_def ncols_getAt0 nearer_def abs_real_of_int_less
           split: if_splits Option.bind_splits)
    done
  then have "y' = y \<and> x' = (if \<exists>j \<in> set [maxY - counter..maxY + counter].
       0 \<le> j \<and> j < ncols grid \<and> exceeds grid i j splitValue then nearer (quot (len grid) 2) x i else x)"
    by (simp add: P_def)
  moreover have "0 \<le> i \<or> \<not> (\<exists>j \<in> set [maxY - counter..maxY + counter].
       0 \<le> j \<and> j < ncols grid \<and> exceeds grid i j splitValue)"
    by (auto simp: exceeds_def cell_def getAt_def split: option.splits)
  ultimately show ?thesis using True by (auto simp: hitColumn_def i_def)
qed

lemma scanTop_xy:
  assumes "scanTop grid maxX maxY counter splitValue (f, x, y, vs) = Some (f', x', y', vs')"
  shows "x' = x \<and> y' = (if hitRow grid (maxY - counter) maxX counter splitValue
                        then maxY - counter else y)"
proof (cases "maxY - counter \<ge> 0")
  case False
  then show ?thesis using assms by (simp add: scanTop_def hitRow_def)
next
  case True
  define i where "i = maxY - counter"
  define P :: "int list \<Rightarrow> scan \<Rightarrow> bool" where
    "P = (\<lambda>p (f1, x1, y1, vs1). x1 = x \<and>
          y1 = (if \<exists>j \<in> set p. 0 \<le> j \<and> j < len grid \<and> exceeds grid j i splitValue then i else y))"
  have "P [maxX - counter..maxX + counter + 1 - 1] (f', x', y', vs')"
    apply (rule forRange_prefix [where P = P, OF assms [unfolded scanTop_def Let_def if_P [OF True]]])
    subgoal by (simp add: P_def)
    subgoal for p j s s1
      by (cases s; cases s1)
        (auto simp: P_def i_def exceeds_def split: if_splits Option.bind_splits)
    done
  then have "x' = x \<and> y' = (if \<exists>j \<in> set [maxX - counter..maxX + counter].
       0 \<le> j \<and> j < len grid \<and> exceeds grid j i splitValue then i else y)"
    by (simp add: P_def)
  then show ?thesis using True by (auto simp: hitRow_def i_def)
qed

lemma scanBottom_xy:
  assumes "scanBottom grid maxX maxY counter splitValue (f, x, y, vs) = Some (f', x', y', vs')"
  shows "x' = x \<and> y' = (if maxY + counter < ncols grid
                            \<and> hitRow grid (maxY + counter) maxX counter splitValue
                        then nearer (quot (ncols grid) 2) y (maxY + counter) else y)"
proof -
  from assms obtain g0 where g0: "getAt grid 0 = Some g0"
    by (auto simp: scanBottom_def split: Option.bind_splits)
  have n: "ncols grid = len g0" by (rule ncols_getAt0 [OF g0])
  show ?thesis
  proof (cases "maxY + counter < len g0")
    case False
    then show ?thesis using assms by (simp add: scanBottom_def g0 n)
  next
    case True
    define i where "i = maxY + counter"
    define P :: "int list \<Rightarrow> scan \<Rightarrow> bool" where
      "P = (\<lambda>p (f1, x1, y1, vs1). x1 = x \<and>
          y1 = (if \<exists>j \<in> set p. 0 \<le> j \<and> j < len grid \<and> exceeds grid j i splitValue
                then nearer (quot (len g0) 2) y i else y))"
    have "P [maxX - counter..maxX + counter + 1 - 1] (f', x', y', vs')"
      apply (rule forRange_prefix [where P = P,
            OF assms [unfolded scanBottom_def g0 bind.simps Let_def if_P [OF True]]])
      subgoal by (simp add: P_def)
      subgoal for p j s s1
        by (cases s; cases s1)
          (auto simp: P_def i_def exceeds_def nearer_def abs_real_of_int_less
             split: if_splits Option.bind_splits)
      done
    then have "x' = x \<and> y' = (if \<exists>j \<in> set [maxX - counter..maxX + counter].
       0 \<le> j \<and> j < len grid \<and> exceeds grid j i splitValue
         then nearer (quot (len g0) 2) y i else y)"
      by (simp add: P_def)
    moreover have "0 \<le> i \<or> \<not> (\<exists>j \<in> set [maxX - counter..maxX + counter].
       0 \<le> j \<and> j < len grid \<and> exceeds grid j i splitValue)"
      by (auto simp: exceeds_def cell_def getAt_def split: option.splits)
    ultimately show ?thesis using True by (auto simp: hitRow_def i_def n)
  qed
qed

text \<open>
  C4, as the code has it. In a pass that returns, when cells above the threshold are
  found on both vertical rings (columns \<open>maxX - counter\<close> and \<open>maxX + counter\<close>), the
  retained \<open>x\<close> is the ring column nearest to the grid centre \<open>len(grid)/2\<close>, the left
  one if both are equally far; when both horizontal rings have such cells, the retained
  \<open>y\<close> is the ring row nearest to \<open>len(grid[0])/2\<close>, the lower-index one on a tie.
\<close>

theorem ring_offset_nearest:
  assumes "scanRings grid maxX maxY counter splitValue = Some (itemFound, x, y, vals)"
  shows "(hitColumn grid (maxX - counter) maxY counter splitValue
            \<and> hitColumn grid (maxX + counter) maxY counter splitValue
          \<longrightarrow> x = nearer (quot (len grid) 2) (maxX - counter) (maxX + counter))
       \<and> (hitRow grid (maxY - counter) maxX counter splitValue
            \<and> hitRow grid (maxY + counter) maxX counter splitValue
            \<and> maxY + counter < ncols grid
          \<longrightarrow> y = nearer (quot (ncols grid) 2) (maxY - counter) (maxY + counter))"
proof -
  from assms obtain s1 s2 s3
    where 1: "scanLeft grid maxX maxY counter splitValue (False, 0, 0, []) = Some s1"
      and 2: "scanRight grid maxX maxY counter splitValue s1 = Some s2"
      and 3: "scanTop grid maxX maxY counter splitValue s2 = Some s3"
      and 4: "scanBottom grid maxX maxY counter splitValue s3 = Some (itemFound, x, y, vals)"
    by (auto simp: scanRings_def split: Option.bind_splits)
  obtain f1 x1 y1 v1 where s1: "s1 = (f1, x1, y1, v1)" by (cases s1)
  obtain f2 x2 y2 v2 where s2: "s2 = (f2, x2, y2, v2)" by (cases s2)
  obtain f3 x3 y3 v3 where s3: "s3 = (f3, x3, y3, v3)" by (cases s3)
  note a = scanLeft_xy [OF 1 [unfolded s1]]
  note b = scanRight_xy [OF 2 [unfolded s1 s2]]
  note c = scanTop_xy [OF 3 [unfolded s2 s3]]
  note d = scanBottom_xy [OF 4 [unfolded s3]]
  show ?thesis using a b c d by simp
qed

theorem ring_offset_nearest_witness:
  "scanRings ridge 1 0 1 (8 / 10) = Some (True, 2, 0, [9 / 10, 9 / 10])
   \<and> hitColumn ridge (1 - 1) 0 1 (8 / 10) \<and> hitColumn ridge (1 + 1) 0 1 (8 / 10)
   \<and> (2::int) = nearer (quot (len ridge) 2) (1 - 1) (1 + 1)"
proof -
  have e: "scanRings ridge 1 0 1 (8 / 10) = Some (True, 2, 0, [9 / 10, 9 / 10])"
    unfolding ridge_def by code_simp
  have l: "hitColumn ridge (1 - 1) 0 1 (8 / 10)" unfolding ridge_def by code_simp
  have r: "hitColumn ridge (1 + 1) 0 1 (8 / 10)" unfolding ridge_def by code_simp
  from ring_offset_nearest [OF e] l r show ?thesis using e by blast
qed

text \<open>
  The claim as written asks for the farthest coordinate. On \<open>ridge\<close> the maximum is in
  column 1, the first pass finds cells above \<open>0.8\<close> in columns 0 and 2, and keeps
  column 2, at distance 0 from the centre 2, although column 0 is at distance 2.
\<close>

theorem ring_offset_farthest_counterexample:
  "findMax ridge = Some (1, 0, 1)
   \<and> hitColumn ridge (1 - 1) 0 1 (1 * (8 / 10)) \<and> hitColumn ridge (1 + 1) 0 1 (1 * (8 / 10))
   \<and> scanRings ridge 1 0 1 (1 * (8 / 10)) = Some (True, 2, 0, [9 / 10, 9 / 10])
   \<and> \<bar>2 - quot (len ridge) 2\<bar> < \<bar>0 - quot (len ridge) 2\<bar>"
  unfolding ridge_def by code_simp

section \<open>Convolution\<close>

lemmas conv_defs = convolve_def convBody_def padTop_def padMiddle_def padBottom_def
  convResult_def convTotal_def forRange_def len_def getAt_def setAt_def makeSlice_def cell_def
  quot_def upto_rec1

text \<open>
  C7, as the code has it. With stride 1 and padding 1 a 3 by 3 grid holding \<open>v\<close> in every
  cell is mapped to a 3 by 3 grid whose cell is \<open>v\<close> times the sum of the kernel entries
  that lie over the unpadded grid at that position: four entries at a corner, six on an
  edge, all nine in the centre. This holds for every 3 by 3 kernel, symmetric or not,
  whenever \<open>v\<close> and the kernel entries are on a grid on which every product and every
  partial sum of the call is exact.
\<close>

theorem convolve_flat3:
  "exactConv k b v [[a, b', c], [d, e, f], [g, h, i]] \<longrightarrow>
   convolve (flat3 v) [[a, b', c], [d, e, f], [g, h, i]] 1 1 =
     Inr [[v * (e + f + h + i), v * (d + e + f + g + h + i), v * (d + e + g + h)],
          [v * (b' + c + e + f + h + i), v * (a + b' + c + d + e + f + g + h + i),
           v * (a + b' + d + e + g + h)],
          [v * (b' + c + e + f), v * (a + b' + c + d + e + f), v * (a + b' + d + e)]]"
  by (simp add: flat3_def conv_defs eval_nat_numeral algebra_simps)

theorem convolve_flat3_witness:
  "exactConv 2 2 (3 / 4) defaultKernel
   \<and> convolve (flat3 (3 / 4)) defaultKernel 1 1 =
       Inr [[15 / 8, 21 / 8, 15 / 8], [21 / 8, 15 / 4, 21 / 8], [15 / 8, 21 / 8, 15 / 8]]"
proof -
  have e: "exactConv 2 2 (3 / 4) [[5 / 10, 5 / 10, 5 / 10], [5 / 10, 1, 5 / 10], [5 / 10, 5 / 10, 5 / 10]]"
    by (simp add: exactConv_def onGrid_def)
  from convolve_flat3 [of 2 2 "3 / 4" "5 / 10" "5 / 10" "5 / 10" "5 / 10" 1 "5 / 10" "5 / 10" "5 / 10" "5 / 10"] e
  show ?thesis by (simp add: defaultKernel_def)
qed

text \<open>
  The claim as written asks for one factor for all cells. With the built-in kernel the
  all-ones grid becomes 2.5 in the corners, 3.5 on the edges and 5 in the centre.
\<close>

theorem convolve_flat3_not_uniform:
  "convolve (flat3 1) defaultKernel 1 1 =
     Inr [[5 / 2, 7 / 2, 5 / 2], [7 / 2, 5, 7 / 2], [5 / 2, 7 / 2, 5 / 2]]
   \<and> \<not> (\<exists>c. convolve (flat3 1) defaultKernel 1 1 = Inr (map (map (\<lambda>v. c * v)) (flat3 1)))"
proof -
  have e: "convolve (flat3 1) defaultKernel 1 1 =
     Inr [[5 / 2, 7 / 2, 5 / 2], [7 / 2, 5, 7 / 2], [5 / 2, 7 / 2, 5 / 2]]"
    unfolding flat3_def defaultKernel_def by code_simp
  show ?thesis unfolding e by (auto simp: flat3_def)
qed

lemma len_nonneg [simp]: "0 \<le> len xs"
  by (simp add: len_def)

lemma foldM_head_None: "f x s = None \<Longrightarrow> foldM f (x # xs) s = None"
  by simp

lemma forRange_first_None:
  assumes "a < b" "body a s = None"
  shows "forRange a b body s = None"
proof -
  have "[a..b - 1] = a # [a + 1..b - 1]" using assms(1) by (simp add: upto_rec1)
  then show ?thesis by (simp add: forRange_def assms(2))
qed

lemma padTop_len:
  assumes "0 \<le> padding" "len procGrid = len grid + 2 * padding"
  shows "\<exists>pg. padTop grid padding procGrid = Some pg \<and> len pg = len grid + 2 * padding"
  unfolding padTop_def
  apply (rule forRange_invariant [where I = "\<lambda>pg. len pg = len grid + 2 * padding", OF assms(2)])
  subgoal for i s by (simp add: makeSlice_def setAt_def len_def)
  done

lemma padMiddle_panics:
  assumes "2 \<le> padding" "len procGrid = len grid + 2 * padding"
  shows "padMiddle grid padding procGrid = None"
proof -
  define W where "W = len grid + 2 * padding"
  have W: "4 \<le> W" using assms(1) len_nonneg [of grid] unfolding W_def by linarith
  have c: "cell grid (1 - padding) (1 - padding) = None"
    using assms(1) by (simp add: cell_def getAt_def)
  have inner: "forRange 1 (W - 1) (\<lambda>j row. cell grid (1 - padding) (j - padding) \<bind> setAt row j) row
      = None" for row :: "real list"
    by (rule forRange_first_None) (use W c in auto)
  have "makeSlice W (0::real) = Some (replicate (nat W) 0)" using W by (simp add: makeSlice_def)
  moreover have "setAt (replicate (nat W) (0::real)) 0 0 = Some (replicate (nat W) 0)"
    using W by (simp add: setAt_def len_def list_eq_iff_nth_eq nth_list_update)
  moreover have "len (replicate (nat W) (0::real)) = W" using W by (simp add: len_def)
  ultimately have body: "(makeSlice W (0::real) \<bind> (\<lambda>row. setAt row 0 0 \<bind> (\<lambda>row.
        forRange 1 (len row - 1) (\<lambda>j row. cell grid (1 - padding) (j - padding) \<bind> setAt row j) row
          \<bind> (\<lambda>row. setAt row (len row - 1) 0 \<bind> setAt procGrid 1)))) = None"
    by (simp add: inner)
  show ?thesis
    unfolding padMiddle_def assms(2) W_def [symmetric]
    by (rule forRange_first_None) (use W body in auto)
qed

lemma convBody_panics:
  assumes "2 \<le> padding"
  shows "convBody grid kernel' stride padding = None"
proof (cases "getAt grid 0")
  case None
  then show ?thesis by (simp add: convBody_def)
next
  case (Some g0)
  define W where "W = len grid + 2 * padding"
  have W: "0 \<le> W" using assms len_nonneg [of grid] unfolding W_def by linarith
  have m: "makeSlice W ([]::real list) = Some (replicate (nat W) [])" using W by (simp add: makeSlice_def)
  have l: "len (replicate (nat W) ([]::real list)) = len grid + 2 * padding"
    using W by (simp add: len_def W_def)
  from padTop_len [OF _ l] assms obtain pg
    where pg: "padTop grid padding (replicate (nat W) []) = Some pg"
      "len pg = len grid + 2 * padding" by auto
  show ?thesis
    by (simp add: convBody_def Some W_def [symmetric] m pg(1) padMiddle_panics [OF assms pg(2)])
qed

text \<open>
  The error returns of \<open>convolve\<close> are exactly the four checks (the last one is only
  reached on a grid that has a first row).
\<close>

lemma convolve_error_iff:
  "(\<exists>msg. convolve grid kernel' stride padding = Inl (Error msg)) \<longleftrightarrow>
     stride < 1 \<or> padding < 1 \<or> len grid < len kernel'
       \<or> (grid \<noteq> [] \<and> len (hd grid) < len kernel')"
proof (cases "grid = []")
  case True
  then show ?thesis by (simp add: convolve_def getAt_def len_def)
next
  case False
  then show ?thesis by (auto simp: convolve_def getAt0 split: option.splits)
qed

text \<open>
  C6. The claim asks that every call that passes the checks succeeds. The loop that
  copies the grid into \<open>procGrid\<close> starts at row 1 and column 1 instead of \<open>padding\<close>, so
  with \<open>padding \<ge> 2\<close> its first step reads \<open>grid[1-padding][1-padding]\<close>: every call that
  passes the checks with such a padding panics.
\<close>

theorem convolve_padding_panics:
  assumes "1 \<le> stride" "2 \<le> padding" "len kernel' \<le> len grid"
    and "grid \<noteq> []" "len kernel' \<le> len (hd grid)"
  shows "convolve grid kernel' stride padding = Inl Panic"
  using assms by (simp add: convolve_def getAt0 convBody_panics)

theorem convolve_padding_panics_witness:
  "(1::int) \<le> 1 \<and> (2::int) \<le> 2 \<and> len defaultKernel \<le> len (flat3 1) \<and> flat3 1 \<noteq> []
   \<and> len defaultKernel \<le> len (hd (flat3 1))
   \<and> convolve (flat3 1) defaultKernel 1 2 = Inl Panic"
proof -
  have a: "len defaultKernel \<le> len (flat3 1)" by (simp add: len_def defaultKernel_def flat3_def)
  have b: "flat3 1 \<noteq> []" by (simp add: flat3_def)
  have c: "len defaultKernel \<le> len (hd (flat3 1))" by (simp add: len_def defaultKernel_def flat3_def)
  from convolve_padding_panics [OF _ _ a b c, of 1 2] a b c show ?thesis by simp
qed

section \<open>Split eligibility\<close>

lemma fold_add_weight: "fold (\<lambda>point total. total + Weight point) ps a = a + totalWeight ps"
  by (induction ps arbitrary: a) (simp_all add: totalWeight_def add.assoc)

lemma checkSplit_eq:
  "checkSplit n \<longleftrightarrow> width n > 2 * MinXLength n \<and> height n > 2 * MinYLength n
     \<and> sint (totalWeight (Points n)) > sint (MaxPoints n) \<and> Depth n < MaxDepth n"
  by (simp add: checkSplit_def width_def height_def fold_add_weight Let_def)

lemma checkSplit2_eq:
  "checkSplit2 n \<longleftrightarrow> width n > 2 * MinXLength n \<and> height2 n > 2 * MinYLength n
     \<and> sint (totalWeight (Points n)) > sint (MaxPoints n) \<and> Depth n < MaxDepth n"
  by (simp add: checkSplit2_def width_def height2_def fold_add_weight Let_def)

lemma checkSplit_q_eq:
  "checkSplit_q q \<longleftrightarrow> width_q q > 2 * minXLength q \<and> height_q q > 2 * minYLength q
     \<and> sint (totalWeight (Points_q q)) > sint (maxPoints q) \<and> Depth_q q < maxDepth q"
  by (simp add: checkSplit_q_def width_q_def height_q_def fold_add_weight Let_def)

text \<open>
  The weight sum that \<open>checkSplit\<close> compares is computed in 64-bit arithmetic; it is the
  exact sum whenever the exact sum fits into 64 bits.
\<close>

lemma sint_sum_list:
  "sint (sum_list ws) = signed_take_bit 63 (sum_list (map sint (ws :: 64 word list)))"
proof (induction ws)
  case Nil
  then show ?case by simp
next
  case (Cons a ws)
  have "sint (a + sum_list ws) = signed_take_bit 63 (sint a + sint (sum_list ws))"
    by (simp add: sint_word_ariths)
  also have "\<dots> = signed_take_bit 63 (sint a + sum_list (map sint ws))"
    unfolding Cons.IH
    using signed_take_bit_add [of 63 "sint a" "signed_take_bit 63 (sum_list (map sint ws))"]
      signed_take_bit_add [of 63 "sint a" "sum_list (map sint ws)"]
    by simp
  finally show ?case by simp
qed

lemma totalWeight_exact:
  assumes "- (2 ^ 63) \<le> (\<Sum>p\<leftarrow>ps. sint (Weight p))" "(\<Sum>p\<leftarrow>ps. sint (Weight p)) < 2 ^ 63"
  shows "sint (totalWeight ps) = (\<Sum>p\<leftarrow>ps. sint (Weight p))"
proof -
  have "sint (totalWeight ps) = signed_take_bit 63 (\<Sum>p\<leftarrow>ps. sint (Weight p))"
    by (simp add: totalWeight_def sint_sum_list comp_def)
  then show ?thesis using assms by (simp add: signed_take_bit_int_eq_self)
qed

text \<open>
  C3, as the code has it. \<open>checkSplit\<close> compares the \<open>float64\<close> difference of the
  coordinates with the doubled minimum length, and the 64-bit sum of the weights with the
  budget. Whenever the coordinates are on a grid on which the differences are exact and
  the exact sum of the weights fits into 64 bits, \<open>checkSplit\<close> of each of the three trees
  holds exactly when the spec's test does: the width exceeds twice the minimum width, the
  height exceeds twice the minimum height, the sum of the stored weights exceeds the
  weight budget and the depth is below the maximum depth. In every case a node whose
  width or height is at most twice the minimum is not split, whatever it weighs.
\<close>

theorem checkSplit_refines:
  "(exactRect k b (TopLeft n) (BottomRight n) (MinXLength n) (MinYLength n) \<and> fits64 (Points n)
      \<longrightarrow> (checkSplit n \<longleftrightarrow> shouldSplit n) \<and> (checkSplit2 n \<longleftrightarrow> shouldSplit2 n))
   \<and> (exactRect k b (TopLeft_q q) (BottomRight_q q) (minXLength q) (minYLength q) \<and> fits64 (Points_q q)
      \<longrightarrow> (checkSplit_q q \<longleftrightarrow> shouldSplit_q q))
   \<and> (width n \<le> 2 * MinXLength n \<or> height n \<le> 2 * MinYLength n \<longrightarrow> \<not> checkSplit n)
   \<and> (width n \<le> 2 * MinXLength n \<or> height2 n \<le> 2 * MinYLength n \<longrightarrow> \<not> checkSplit2 n)
   \<and> (width_q q \<le> 2 * minXLength q \<or> height_q q \<le> 2 * minYLength q \<longrightarrow> \<not> checkSplit_q q)"
  using totalWeight_exact [of "Points n"] totalWeight_exact [of "Points_q q"]
  by (auto simp: checkSplit_eq checkSplit2_eq checkSplit_q_eq shouldSplit_def shouldSplit2_def
      shouldSplit_q_def fits64_def weightSum_def)

lemma onGrid_small: "onGrid 0 4 0" "onGrid 0 4 2" "onGrid 0 4 10"
  by (simp_all add: onGrid_def)

theorem checkSplit_refines_witness:
  "exactRect 0 4 (corner 0 0) (corner 10 10) 1 1 \<and> fits64 [pt 1 1 100]
   \<and> weightSum [pt 1 1 100] = 100
   \<and> checkSplit (nodeAt (corner 0 0) (corner 10 10) True [pt 1 1 100])
   \<and> checkSplit2 (nodeAt (corner 0 10) (corner 10 0) True [pt 1 1 100])
   \<and> checkSplit_q (nodeAt_q (corner 0 0) (corner 10 10) True [pt 1 1 100])
   \<and> width (nodeAt (corner 0 0) (corner 2 10) True [pt 1 1 100]) = 2
   \<and> \<not> checkSplit (nodeAt (corner 0 0) (corner 2 10) True [pt 1 1 100])
   \<and> \<not> checkSplit2 (nodeAt (corner 0 10) (corner 2 0) True [pt 1 1 100])
   \<and> \<not> checkSplit_q (nodeAt_q (corner 0 0) (corner 2 10) True [pt 1 1 100])"
proof -
  have e: "exactRect 0 4 (corner 0 0) (corner 10 10) 1 1" "exactRect 0 4 (corner 0 10) (corner 10 0) 1 1"
    by (simp_all add: exactRect_def corner_def onGrid_small)
  have f: "fits64 [pt 1 1 100]" "weightSum [pt 1 1 100] = 100"
    by (simp_all add: fits64_def weightSum_def pt_def)
  from checkSplit_refines [of 0 4 "nodeAt (corner 0 0) (corner 10 10) True [pt 1 1 100]"
      "nodeAt_q (corner 0 0) (corner 10 10) True [pt 1 1 100]"]
    checkSplit_refines [of 0 4 "nodeAt (corner 0 10) (corner 10 0) True [pt 1 1 100]"]
    checkSplit_refines [of _ _ "nodeAt (corner 0 0) (corner 2 10) True [pt 1 1 100]"
      "nodeAt_q (corner 0 0) (corner 2 10) True [pt 1 1 100]"]
    checkSplit_refines [of _ _ "nodeAt (corner 0 10) (corner 2 0) True [pt 1 1 100]"]
    e f
  show ?thesis
    by (simp add: nodeAt_def nodeAt_q_def shouldSplit_def shouldSplit2_def shouldSplit_q_def
        width_def height_def height2_def width_q_def height_q_def corner_def)
qed

text \<open>
  The claim as written fails where the sum of the weights leaves the 64 bits of an
  \<open>int\<close>: two points of weight \<open>2\<^sup>6\<^sup>3 - 1\<close> and 1 weigh more than every budget, all other
  conditions hold, and \<open>checkSplit\<close> of each tree compares the wrapped sum \<open>-2\<^sup>6\<^sup>3\<close> and
  answers no.
\<close>

theorem checkSplit_overflow_counterexample:
  "exactRect 0 4 (corner 0 0) (corner 10 10) 1 1
   \<and> weightSum heavy = 2 ^ 63
   \<and> shouldSplit (nodeAt (corner 0 0) (corner 10 10) True heavy)
   \<and> \<not> checkSplit (nodeAt (corner 0 0) (corner 10 10) True heavy)
   \<and> shouldSplit2 (nodeAt (corner 0 10) (corner 10 0) True heavy)
   \<and> \<not> checkSplit2 (nodeAt (corner 0 10) (corner 10 0) True heavy)
   \<and> shouldSplit_q (nodeAt_q (corner 0 0) (corner 10 10) True heavy)
   \<and> \<not> checkSplit_q (nodeAt_q (corner 0 0) (corner 10 10) True heavy)"
  by (simp add: exactRect_def onGrid_small corner_def heavy_def weightSum_def pt_def
      shouldSplit_def shouldSplit2_def shouldSplit_q_def checkSplit_eq checkSplit2_eq checkSplit_q_eq
      nodeAt_def nodeAt_q_def width_def height_def height2_def width_q_def height_q_def totalWeight_def)

section \<open>Inserting a point that no child contains\<close>

text \<open>
  C9. In each of the three trees, \<open>Insert\<close> on a node that is not a leaf, with a point
  that none of its four children contains, returns normally and leaves the tree as it
  was: the point is dropped.
\<close>

theorem Insert_outside:
  "(\<not> IsLeaf n \<and> \<not> contains c1 p \<and> \<not> contains c2 p \<and> \<not> contains c3 p \<and> \<not> contains c4 p
      \<longrightarrow> Insert (ConvTree n (Some c1) (Some c2) (Some c3) (Some c4)) p allowSplit
            = Inr (ConvTree n (Some c1) (Some c2) (Some c3) (Some c4)))
   \<and> (\<not> IsLeaf n \<and> \<not> contains2 c1 p \<and> \<not> contains2 c2 p \<and> \<not> contains2 c3 p \<and> \<not> contains2 c4 p
      \<longrightarrow> Insert2 (ConvTree n (Some c1) (Some c2) (Some c3) (Some c4)) p allowSplit
            = Inr (ConvTree n (Some c1) (Some c2) (Some c3) (Some c4)))
   \<and> (\<not> IsLeaf_q m \<and> \<not> contains_q q1 p \<and> \<not> contains_q q2 p \<and> \<not> contains_q q3 p
         \<and> \<not> contains_q q4 p
      \<longrightarrow> Insert_q (QuadTree m (Some q1) (Some q2) (Some q3) (Some q4)) p
            = Inr (QuadTree m (Some q1) (Some q2) (Some q3) (Some q4)))"
  by simp

theorem Insert_outside_witness:
  "\<not> contains (the (ChildTopLeft quartered)) (pt 20 20 1)
   \<and> Insert quartered (pt 20 20 1) True = Inr quartered
   \<and> Insert2 quartered2 (pt 20 20 1) True = Inr quartered2
   \<and> Insert_q quartered_q (pt 20 20 1) = Inr quartered_q"
  using Insert_outside [of "nodeAt (corner 0 0) (corner 10 10) False []"
      "childless (nodeAt (corner 0 0) (corner 5 5) True [])" "pt 20 20 1"
      "childless (nodeAt (corner 5 0) (corner 10 5) True [])"
      "childless (nodeAt (corner 0 5) (corner 5 10) True [])"
      "childless (nodeAt (corner 5 5) (corner 10 10) True [])" True
      "nodeAt_q (corner 0 0) (corner 10 10) False []"
      "childless_q (nodeAt_q (corner 0 0) (corner 5 5) True [])"
      "childless_q (nodeAt_q (corner 5 0) (corner 10 5) True [])"
      "childless_q (nodeAt_q (corner 0 5) (corner 5 10) True [])"
      "childless_q (nodeAt_q (corner 5 5) (corner 10 10) True [])"]
    Insert_outside [of "nodeAt (corner 0 10) (corner 10 0) False []"
      "childless (nodeAt (corner 0 10) (corner 5 5) True [])" "pt 20 20 1"
      "childless (nodeAt (corner 5 10) (corner 10 5) True [])"
      "childless (nodeAt (corner 0 5) (corner 5 0) True [])"
      "childless (nodeAt (corner 5 5) (corner 10 0) True [])" True]
  by (simp add: quartered_def quartered2_def quartered_q_def contains_def contains2_def
      contains_q_def childless_def childless_q_def nodeAt_def nodeAt_q_def corner_def pt_def)

section \<open>Baseline tags\<close>

lemma itemTags_fold:
  "distinct seen \<Longrightarrow>
   distinct (fold (\<lambda>tag seen. if tag \<in> set seen then seen else seen @ [tag]) tags seen)
   \<and> set (fold (\<lambda>tag seen. if tag \<in> set seen then seen else seen @ [tag]) tags seen)
       = set seen \<union> set tags"
  by (induction tags arbitrary: seen) auto

lemma itemTags_set: "set (itemTags tags) = set tags" and itemTags_distinct: "distinct (itemTags tags)"
  using itemTags_fold [of "[]" tags] by (simp_all add: itemTags_def)

lemma map_of_countTag:
  "map_of (countTag tag tv) = (map_of tv)(tag \<mapsto> countOf tv tag + 1)"
  by (cases "map_of tv tag") (simp_all add: countTag_def countOf_def Let_def update_conv')

lemma countTag_props:
  assumes "counted tv"
  shows "counted (countTag tag tv)"
    and "countOf (countTag tag tv) t = (if t = tag then countOf tv tag + 1 else countOf tv t)"
    and "fst ` set (countTag tag tv) = insert tag (fst ` set tv)"
proof -
  show "countOf (countTag tag tv) t = (if t = tag then countOf tv tag + 1 else countOf tv t)"
    by (simp add: countOf_def map_of_countTag)
  show "fst ` set (countTag tag tv) = insert tag (fst ` set tv)"
    by (simp add: countTag_def Let_def AList.dom_update)
  have d: "distinct (map fst (countTag tag tv))"
    using assms by (simp add: countTag_def Let_def counted_def distinct_update)
  have "countOf tv tag \<ge> 0"
  proof (cases "map_of tv tag")
    case None
    then show ?thesis by (simp add: countOf_def)
  next
    case (Some n)
    with assms have "n \<ge> 1" unfolding counted_def by blast
    with Some show ?thesis by (simp add: countOf_def)
  qed
  then have "\<forall>k v. map_of (countTag tag tv) k = Some v \<longrightarrow> v \<ge> 1"
    using assms by (auto simp: map_of_countTag counted_def)
  with d show "counted (countTag tag tv)" by (simp add: counted_def)
qed

lemma fold_countTag:
  assumes "counted tv" "distinct tags"
  shows "counted (fold countTag tags tv)
    \<and> (\<forall>t. countOf (fold countTag tags tv) t = (if t \<in> set tags then countOf tv t + 1 else countOf tv t))
    \<and> fst ` set (fold countTag tags tv) = set tags \<union> fst ` set tv"
  using assms
proof (induction tags arbitrary: tv)
  case Nil
  then show ?case by simp
next
  case (Cons a tags)
  note p = countTag_props [OF Cons.prems(1), of a]
  from Cons.prems(2) have "distinct tags" "a \<notin> set tags" by auto
  from Cons.IH [OF p(1) this(1)] p(2,3) this(2) show ?case by auto
qed

lemma counted_Nil: "counted []"
  by (simp add: counted_def)

lemma tagCounts_snoc:
  "tagCounts (ps @ [p]) = fold countTag (itemTags (tagsOf p)) (tagCounts ps)"
  by (cases "Content p") (simp_all add: tagCounts_def tagsOf_def itemTags_def)

lemma tagCounts_props:
  "counted (tagCounts ps)
   \<and> (\<forall>t. countOf (tagCounts ps) t = int (carriers t ps))
   \<and> fst ` set (tagCounts ps) = set (allTags ps)"
proof (induction ps rule: rev_induct)
  case Nil
  show ?case by (simp add: tagCounts_def counted_Nil countOf_def carriers_def allTags_def)
next
  case (snoc p ps)
  from snoc have c: "counted (tagCounts ps)" by simp
  note f = fold_countTag [OF c itemTags_distinct, of "tagsOf p"]
  show ?case
    unfolding tagCounts_snoc
    using f snoc by (auto simp: itemTags_set carriers_def allTags_def)
qed

lemma mean_sum_list: "mean xs = sum_list xs / real (length xs)"
proof -
  have "fold (\<lambda>v sum. sum + v) xs a = a + sum_list xs" for a :: real
    by (induction xs arbitrary: a) simp_all
  then show ?thesis by (simp add: mean_def)
qed

lemma toInt_less_iff:
  assumes "0 \<le> r"
  shows "toInt r < v \<longleftrightarrow> r < real_of_int v"
  using assms by (simp add: toInt_def floor_less_iff)

lemma counted_lookup:
  assumes "counted tv" "(k, v) \<in> set tv"
  shows "v = countOf tv k"
  using assms by (simp add: counted_def countOf_def)

lemma tagCounts_values:
  "map (\<lambda>(k, v). real_of_int v) (tagCounts ps)
     = map (\<lambda>k. real (carriers k ps)) (map fst (tagCounts ps))"
proof -
  have "real_of_int v = real (carriers k ps)" if "(k, v) \<in> set (tagCounts ps)" for k v
    using counted_lookup [OF _ that] tagCounts_props [of ps] by simp
  then show ?thesis by auto
qed

lemma tagCounts_keys: "mset (map fst (tagCounts ps)) = mset (allTags ps)"
proof -
  have "distinct (map fst (tagCounts ps))" using tagCounts_props [of ps] by (simp add: counted_def)
  moreover have "distinct (allTags ps)" by (simp add: allTags_def)
  moreover have "set (map fst (tagCounts ps)) = set (allTags ps)"
    using tagCounts_props [of ps] by simp
  ultimately show ?thesis by (metis set_eq_iff_mset_eq_distinct)
qed

lemma tagCounts_mean:
  "mean (map (\<lambda>(k, v). real_of_int v) (tagCounts ps)) = meanCarriers ps"
proof -
  define f where "f = (\<lambda>k. real (carriers k ps))"
  have "mset (map f (map fst (tagCounts ps))) = mset (map f (allTags ps))"
    using arg_cong [OF tagCounts_keys [of ps], of "image_mset f"]
    by (simp add: multiset.map_comp)
  then have "sum_mset (mset (map f (map fst (tagCounts ps)))) = sum_mset (mset (map f (allTags ps)))"
    by (rule arg_cong)
  then have "sum_list (map (\<lambda>k. real (carriers k ps)) (map fst (tagCounts ps)))
      = sum_list (map (\<lambda>k. real (carriers k ps)) (allTags ps))"
    unfolding sum_mset_sum_list f_def .
  moreover have "length (tagCounts ps) = length (allTags ps)"
    using arg_cong [OF tagCounts_keys [of ps], of size] by simp
  ultimately show ?thesis
    by (simp add: mean_sum_list tagCounts_values meanCarriers_def)
qed

lemma meanCarriers_nonneg: "0 \<le> meanCarriers ps"
  unfolding meanCarriers_def by (intro divide_nonneg_nonneg sum_list_nonneg) auto

lemma filterTags_tagCounts:
  "set (filterTags (tagCounts ps)) = set (aboveMean ps) \<and> distinct (filterTags (tagCounts ps))"
proof -
  have v: "(toInt (meanCarriers ps) < v) = (meanCarriers ps < real (carriers k ps))"
    if "(k, v) \<in> set (tagCounts ps)" for k v
  proof -
    have "v = int (carriers k ps)"
      using counted_lookup [OF _ that] tagCounts_props [of ps] by simp
    then show ?thesis by (simp add: toInt_less_iff [OF meanCarriers_nonneg])
  qed
  have k: "fst ` set (tagCounts ps) = set (allTags ps)" using tagCounts_props [of ps] by simp
  have kk: "(\<exists>v. (x, v) \<in> set (tagCounts ps)) = (x \<in> set (allTags ps))" for x
    unfolding k [symmetric] by (simp add: image_iff Bex_def)
  have "set (filterTags (tagCounts ps))
      = fst ` {kv \<in> set (tagCounts ps). toInt (meanCarriers ps) < snd kv}"
    unfolding filterTags_def Let_def tagCounts_mean by (simp add: case_prod_unfold)
  also have "\<dots> = {k. \<exists>v. (k, v) \<in> set (tagCounts ps) \<and> toInt (meanCarriers ps) < v}"
    by (auto simp: image_iff)
  also have "\<dots> = {k. \<exists>v. (k, v) \<in> set (tagCounts ps) \<and> meanCarriers ps < real (carriers k ps)}"
    using v by blast
  also have "\<dots> = {k. k \<in> set (allTags ps) \<and> meanCarriers ps < real (carriers k ps)}"
    using kk by simp
  also have "\<dots> = set (aboveMean ps)"
    by (auto simp: aboveMean_def)
  finally have 1: "set (filterTags (tagCounts ps)) = set (aboveMean ps)" .
  have "distinct (map fst (tagCounts ps))" using tagCounts_props [of ps] by (simp add: counted_def)
  then have "distinct (filterTags (tagCounts ps))"
    by (simp add: filterTags_def Let_def distinct_map_filter)
  with 1 show ?thesis by simp
qed

lemma tagCounts_empty: "tagCounts ps = [] \<longleftrightarrow> allTags ps = []"
  using tagCounts_props [of ps] by (metis image_is_empty set_empty)

text \<open>
  C8, as the code has it. When some point of the node carries a tag, \<open>getBaseline\<close>
  changes nothing but \<open>BaselineTags\<close>, which becomes a duplicate-free list of exactly the
  tags carried by strictly more points than the mean number of carriers per distinct
  tag (a tag repeated in one payload counts once for that point). When no point carries
  a tag, \<open>getBaseline\<close> leaves the node as it is, \<open>BaselineTags\<close> included.
\<close>

theorem getBaseline_tags:
  "(allTags (Points n) \<noteq> [] \<longrightarrow>
      getBaseline n = n\<lparr>BaselineTags := BaselineTags (getBaseline n)\<rparr>
      \<and> set (BaselineTags (getBaseline n)) = set (aboveMean (Points n))
      \<and> distinct (BaselineTags (getBaseline n)))
   \<and> (allTags (Points n) = [] \<longrightarrow> getBaseline n = n)"
  using tagCounts_empty [of "Points n"] filterTags_tagCounts [of "Points n"]
  by (simp add: getBaseline_def Let_def len_def)

theorem getBaseline_tags_witness:
  "allTags (Points tagLeaf) \<noteq> []
   \<and> carriers ''a'' (Points tagLeaf) = 2 \<and> carriers ''b'' (Points tagLeaf) = 1
   \<and> meanCarriers (Points tagLeaf) = 3 / 2
   \<and> set (BaselineTags (getBaseline tagLeaf)) = set (aboveMean (Points tagLeaf))
   \<and> BaselineTags (getBaseline tagLeaf) = [''a'']
   \<and> allTags (Points bareLeaf) = []
   \<and> getBaseline bareLeaf = bareLeaf"
proof -
  have a: "allTags (Points tagLeaf) \<noteq> []" unfolding tagLeaf_def by code_simp
  have b: "allTags (Points bareLeaf) = []" unfolding bareLeaf_def by code_simp
  have c: "carriers ''a'' (Points tagLeaf) = 2 \<and> carriers ''b'' (Points tagLeaf) = 1
     \<and> meanCarriers (Points tagLeaf) = 3 / 2 \<and> BaselineTags (getBaseline tagLeaf) = [''a'']"
    unfolding tagLeaf_def by code_simp
  from getBaseline_tags [of tagLeaf] getBaseline_tags [of bareLeaf] a b c show ?thesis by simp
qed

text \<open>
  The claim as written says that a leaf without tagged points ends with no baseline tags.
  A root leaf holds two tagged points and gets the baseline \<open>a\<close>; a third, untagged
  point is inserted and the leaf is split; the top right child holds only the untagged
  point and keeps the \<open>a\<close> it took from its parent.
\<close>

theorem baseline_inherited_counterexample:
  "(case NewConvTree2 (corner 0 10) (corner 10 0) 1 1 2 1 0 1 []
           [tagged (1 / 2) (1 / 2) 1 [''a'', ''b''], tagged (1 / 2) (6 / 10) 1 [''a'']] of
      Inl e \<Rightarrow> False
    | Inr t0 \<Rightarrow>
        IsLeaf (node t0) \<and> BaselineTags (node t0) = [''a'']
        \<and> (case Insert2 t0 (pt 5 5 1) True of
              Inl e \<Rightarrow> False
            | Inr t \<Rightarrow>
                (case ChildTopRight t of
                   None \<Rightarrow> False
                 | Some c \<Rightarrow>
                     IsLeaf (node c) \<and> Points (node c) = [pt 5 5 1]
                     \<and> allTags (Points (node c)) = []
                     \<and> BaselineTags (node c) = [''a''])))"
  by code_simp

section \<open>The split pipeline does not panic\<close>


























lemma quot_one [simp]: "0 \<le> a \<Longrightarrow> quot a 1 = a"
  by (simp add: quot_def sgn_if)








lemma split_unfold:
  "split (ConvTree tree ctl ctr cbl cbr) =
     (case splitCut tree of
        None \<Rightarrow> Inl Panic
      | Some (xRight, yBottom) \<Rightarrow>
          (case grow (newChild tree (TopLeft tree) (corner xRight yBottom)) of
             Inl e \<Rightarrow> Inl e
           | Inr t1 \<Rightarrow>
          (case grow (newChild tree (corner xRight (Y (TopLeft tree)))
                        (corner (X (BottomRight tree)) yBottom)) of
             Inl e \<Rightarrow> Inl e
           | Inr t2 \<Rightarrow>
          (case grow (newChild tree (corner (X (TopLeft tree)) yBottom)
                        (corner xRight (Y (BottomRight tree)))) of
             Inl e \<Rightarrow> Inl e
           | Inr t3 \<Rightarrow>
          (case grow (newChild tree (corner xRight yBottom) (BottomRight tree)) of
             Inl e \<Rightarrow> Inl e
           | Inr t4 \<Rightarrow>
               Inr (ConvTree (tree\<lparr>IsLeaf := False, Points := []\<rparr>)
                      (Some t1) (Some t2) (Some t3) (Some t4)))))))"
  unfolding grow_def by (simp only: split.simps Let_def)

lemma split2_unfold:
  "split2 (ConvTree tree ctl ctr cbl cbr) =
     (case splitCut2 tree of
        None \<Rightarrow> Inl Panic
      | Some (xRight, yBottom) \<Rightarrow>
          (case grow2 tree (newChild2 tree (TopLeft tree) (corner xRight yBottom)) of
             Inl e \<Rightarrow> Inl e
           | Inr t1 \<Rightarrow>
          (case grow2 tree (newChild2 tree (corner xRight (Y (TopLeft tree)))
                        (corner (X (BottomRight tree)) yBottom)) of
             Inl e \<Rightarrow> Inl e
           | Inr t2 \<Rightarrow>
          (case grow2 tree (newChild2 tree (corner (X (TopLeft tree)) yBottom)
                        (corner xRight (Y (BottomRight tree)))) of
             Inl e \<Rightarrow> Inl e
           | Inr t3 \<Rightarrow>
          (case grow2 tree (newChild2 tree (corner xRight yBottom) (BottomRight tree)) of
             Inl e \<Rightarrow> Inl e
           | Inr t4 \<Rightarrow>
               Inr (ConvTree (tree\<lparr>IsLeaf := False, Points := []\<rparr>)
                      (Some t1) (Some t2) (Some t3) (Some t4)))))))"
  unfolding grow2_def by (simp only: split2.simps Let_def)

declare split.simps [simp del] split2.simps [simp del]

lemma levels_child:
  "checkSplit (newChild tree a b) \<Longrightarrow> levels (newChild tree a b) < levels tree"
  "checkSplit2 (newChild2 tree a b) \<Longrightarrow> levels (newChild2 tree a b) < levels tree"
  by (auto simp: checkSplit_def checkSplit2_def newChild_def newChild2_def levels_def Let_def)







section \<open>What split returns\<close>

text \<open>What \<open>split\<close> returns, child by child.\<close>

lemma split_InrE:
  assumes "split (ConvTree tree ctl ctr cbl cbr) = Inr t'"
  obtains xRight yBottom t1 t2 t3 t4 where
    "splitCut tree = Some (xRight, yBottom)"
    "grow (newChild tree (TopLeft tree) (corner xRight yBottom)) = Inr t1"
    "grow (newChild tree (corner xRight (Y (TopLeft tree))) (corner (X (BottomRight tree)) yBottom)) = Inr t2"
    "grow (newChild tree (corner (X (TopLeft tree)) yBottom) (corner xRight (Y (BottomRight tree)))) = Inr t3"
    "grow (newChild tree (corner xRight yBottom) (BottomRight tree)) = Inr t4"
    "t' = ConvTree (tree\<lparr>IsLeaf := False, Points := []\<rparr>) (Some t1) (Some t2) (Some t3) (Some t4)"
  using assms by (auto simp: split_unfold split: option.splits sum.splits)

lemma split2_InrE:
  assumes "split2 (ConvTree tree ctl ctr cbl cbr) = Inr t'"
  obtains xRight yBottom t1 t2 t3 t4 where
    "splitCut2 tree = Some (xRight, yBottom)"
    "grow2 tree (newChild2 tree (TopLeft tree) (corner xRight yBottom)) = Inr t1"
    "grow2 tree (newChild2 tree (corner xRight (Y (TopLeft tree))) (corner (X (BottomRight tree)) yBottom)) = Inr t2"
    "grow2 tree (newChild2 tree (corner (X (TopLeft tree)) yBottom) (corner xRight (Y (BottomRight tree)))) = Inr t3"
    "grow2 tree (newChild2 tree (corner xRight yBottom) (BottomRight tree)) = Inr t4"
    "t' = ConvTree (tree\<lparr>IsLeaf := False, Points := []\<rparr>) (Some t1) (Some t2) (Some t3) (Some t4)"
  using assms by (auto simp: split2_unfold split: option.splits sum.splits)

lemma split_node:
  "split (ConvTree tree ctl ctr cbl cbr) = Inr t' \<Longrightarrow> node t' = tree\<lparr>IsLeaf := False, Points := []\<rparr>"
  by (erule split_InrE) simp

lemma split2_node:
  "split2 (ConvTree tree ctl ctr cbl cbr) = Inr t' \<Longrightarrow> node t' = tree\<lparr>IsLeaf := False, Points := []\<rparr>"
  by (erule split2_InrE) simp

lemma getBaseline_fields [simp]:
  "IsLeaf (getBaseline c) = IsLeaf c" "Depth (getBaseline c) = Depth c"
  "TopLeft (getBaseline c) = TopLeft c" "BottomRight (getBaseline c) = BottomRight c"
  "MinXLength (getBaseline c) = MinXLength c" "MinYLength (getBaseline c) = MinYLength c"
  "Points (getBaseline c) = Points c"
  by (simp_all add: getBaseline_def Let_def)

lemma split_q_unfold:
  "split_q (QuadTree tree ctl ctr cbl cbr) =
     (let xRight = X (TopLeft_q tree) + (X (BottomRight_q tree) - X (TopLeft_q tree)) / 2;
          yBottom = Y (TopLeft_q tree) + (Y (BottomRight_q tree) - Y (TopLeft_q tree)) / 2
      in QuadTree (tree\<lparr>IsLeaf_q := False, Points_q := []\<rparr>)
           (Some (grow_q (newChild_q tree (TopLeft_q tree) (corner xRight yBottom))))
           (Some (grow_q (newChild_q tree (corner xRight (Y (TopLeft_q tree)))
                    (corner (X (BottomRight_q tree)) yBottom))))
           (Some (grow_q (newChild_q tree (corner (X (TopLeft_q tree)) yBottom)
                    (corner xRight (Y (BottomRight_q tree))))))
           (Some (grow_q (newChild_q tree (corner xRight yBottom) (BottomRight_q tree)))))"
  unfolding grow_q_def by (simp only: split_q.simps Let_def)

declare split_q.simps [simp del]

lemma split_q_node:
  "node_q (split_q (QuadTree tree ctl ctr cbl cbr)) = tree\<lparr>IsLeaf_q := False, Points_q := []\<rparr>"
  by (simp add: split_q_unfold Let_def)

section \<open>Create, Insert, Check and Clear\<close>
















section \<open>Depths\<close>

lemma split_depths:
  assumes "split (ConvTree tree ctl ctr cbl cbr) = Inr t'"
  shows "depthsOK t'"
  using assms
proof (induction "levels tree" arbitrary: tree ctl ctr cbl cbr t' rule: less_induct)
  case less
  from less.prems(1) obtain xRight yBottom t1 t2 t3 t4 where s:
    "splitCut tree = Some (xRight, yBottom)"
    "grow (newChild tree (TopLeft tree) (corner xRight yBottom)) = Inr t1"
    "grow (newChild tree (corner xRight (Y (TopLeft tree))) (corner (X (BottomRight tree)) yBottom)) = Inr t2"
    "grow (newChild tree (corner (X (TopLeft tree)) yBottom) (corner xRight (Y (BottomRight tree)))) = Inr t3"
    "grow (newChild tree (corner xRight yBottom) (BottomRight tree)) = Inr t4"
    "t' = ConvTree (tree\<lparr>IsLeaf := False, Points := []\<rparr>) (Some t1) (Some t2) (Some t3) (Some t4)"
    by (rule split_InrE)
  have g: "depthsOK t \<and> Depth (node t) = Depth tree + 1"
    if "grow (newChild tree a b) = Inr t" for a b t
  proof (cases "checkSplit (newChild tree a b)")
    case True
    with that have sp: "split (childless (newChild tree a b)) = Inr t" by (simp add: grow_def)
    from less.hyps [OF levels_child(1) [OF True] sp [unfolded childless_def]]
      split_node [OF sp [unfolded childless_def]]
    show ?thesis by (simp add: newChild_def)
  next
    case False
    with that show ?thesis
      by (auto simp: grow_def childless_def newChild_def)
  qed
  from g [OF s(2)] g [OF s(3)] g [OF s(4)] g [OF s(5)]
  show ?case by (simp add: s(6))
qed

lemma split2_depths:
  assumes "split2 (ConvTree tree ctl ctr cbl cbr) = Inr t'"
  shows "depthsOK t'"
  using assms
proof (induction "levels tree" arbitrary: tree ctl ctr cbl cbr t' rule: less_induct)
  case less
  from less.prems(1) obtain xRight yBottom t1 t2 t3 t4 where s:
    "splitCut2 tree = Some (xRight, yBottom)"
    "grow2 tree (newChild2 tree (TopLeft tree) (corner xRight yBottom)) = Inr t1"
    "grow2 tree (newChild2 tree (corner xRight (Y (TopLeft tree))) (corner (X (BottomRight tree)) yBottom)) = Inr t2"
    "grow2 tree (newChild2 tree (corner (X (TopLeft tree)) yBottom) (corner xRight (Y (BottomRight tree)))) = Inr t3"
    "grow2 tree (newChild2 tree (corner xRight yBottom) (BottomRight tree)) = Inr t4"
    "t' = ConvTree (tree\<lparr>IsLeaf := False, Points := []\<rparr>) (Some t1) (Some t2) (Some t3) (Some t4)"
    by (rule split2_InrE)
  have g: "depthsOK t \<and> Depth (node t) = Depth tree + 1"
    if "grow2 tree (newChild2 tree a b) = Inr t" for a b t
  proof (cases "checkSplit2 (newChild2 tree a b)")
    case True
    with that have sp: "split2 (childless (newChild2 tree a b)) = Inr t" by (simp add: grow2_def)
    from less.hyps [OF levels_child(2) [OF True] sp [unfolded childless_def]]
      split2_node [OF sp [unfolded childless_def]]
    show ?thesis by (simp add: newChild2_def)
  next
    case False
    with that show ?thesis
      by (auto simp: grow2_def seeded_def childless_def newChild2_def)
  qed
  from g [OF s(2)] g [OF s(3)] g [OF s(4)] g [OF s(5)]
  show ?case by (simp add: s(6))
qed

lemma split_q_depths:
  "depthsOK_q (split_q (QuadTree tree ctl ctr cbl cbr))"
proof (induction "levels_q tree" arbitrary: tree ctl ctr cbl cbr rule: less_induct)
  case less
  have g: "depthsOK_q (grow_q (newChild_q tree a b))
           \<and> Depth_q (node_q (grow_q (newChild_q tree a b))) = Depth_q tree + 1" for a b
  proof (cases "checkSplit_q (newChild_q tree a b)")
    case True
    then have l: "levels_q (newChild_q tree a b) < levels_q tree"
      by (simp add: checkSplit_q_def Let_def newChild_q_def levels_q_def)
    from less.hyps [OF l, of None None None None] True
    show ?thesis
      by (simp add: grow_q_def childless_q_def split_q_node) (simp add: newChild_q_def)
  next
    case False
    then show ?thesis
      by (simp add: grow_q_def childless_q_def newChild_q_def)
  qed
  show ?case by (simp add: split_q_unfold Let_def g)
qed

lemma NewConvTree_depths:
  assumes "NewConvTree topLeft bottomRight minX minY maxP maxD convNumber gridSize kernel' initPoints = Inr t"
  shows "depthsOK t \<and> Depth (node t) = 0"
  using assms split_depths [of _ None None None None t] split_node [of _ None None None None t]
  by (auto simp: NewConvTree_def Let_def childless_def split: if_splits)

lemma NewConvTree2_depths:
  assumes "NewConvTree2 topLeft bottomRight minX minY maxP maxD convNumber gridSize kernel' initPoints = Inr t"
  shows "depthsOK t \<and> Depth (node t) = 0"
  using assms split2_depths [of _ None None None None t] split2_node [of _ None None None None t]
  by (auto simp: NewConvTree2_def Let_def childless_def split: if_splits)

lemma NewQuadTree_depths:
  assumes "NewQuadTree topLeft bottomRight minX minY maxP maxD initPoints = Inr q"
  shows "depthsOK_q q \<and> Depth_q (node_q q) = 0"
  using assms split_q_depths [of _ None None None None]
  by (auto simp: NewQuadTree_def Let_def childless_q_def split_q_node split: if_splits)

text \<open>
  C2, as the code has it. In a tree that \<open>NewConvTree\<close> (of either source) or \<open>NewQuadTree\<close>
  returns, the root has depth 0 and every child has the depth of its parent plus 1. These
  are equalities between integer fields: they hold wherever the cuts fall.
\<close>

theorem depths_from_root:
  "(NewConvTree topLeft bottomRight minX minY maxP maxD convNumber gridSize kernel' initPoints = Inr t
      \<longrightarrow> depthsOK t \<and> Depth (node t) = 0)
   \<and> (NewConvTree2 topLeft bottomRight minX minY maxP maxD convNumber gridSize kernel' initPoints = Inr t2
      \<longrightarrow> depthsOK t2 \<and> Depth (node t2) = 0)
   \<and> (NewQuadTree topLeft bottomRight minX minY maxP maxD initPoints = Inr q
      \<longrightarrow> depthsOK_q q \<and> Depth_q (node_q q) = 0)"
  using NewConvTree_depths [of topLeft bottomRight minX minY maxP maxD convNumber gridSize kernel' initPoints t]
    NewConvTree2_depths [of topLeft bottomRight minX minY maxP maxD convNumber gridSize kernel' initPoints t2]
    NewQuadTree_depths [of topLeft bottomRight minX minY maxP maxD initPoints q]
  by blast

theorem depths_from_root_witness:
  "(\<exists>t. NewConvTree (corner 0 0) (corner 10 10) 1 1 1 2 0 1 [] [pt (5 / 2) (5 / 2) 2] = Inr t
        \<and> map Depth (leaves t) = [1, 1, 1, 2, 2, 2, 2] \<and> depthsOK t \<and> Depth (node t) = 0)
   \<and> (\<exists>t. NewConvTree2 (corner 0 10) (corner 10 0) 1 1 1 2 0 1 [] [pt (5 / 2) (5 / 2) 2] = Inr t
        \<and> \<not> IsLeaf (node t) \<and> depthsOK t \<and> Depth (node t) = 0)
   \<and> (\<exists>q. NewQuadTree (corner 0 0) (corner 10 10) 1 1 1 2 [pt 1 1 2] = Inr q
        \<and> q \<noteq> childless_q (node_q q) \<and> depthsOK_q q \<and> Depth_q (node_q q) = 0)"
proof -
  have "case NewConvTree (corner 0 0) (corner 10 10) 1 1 1 2 0 1 [] [pt (5 / 2) (5 / 2) 2] of
          Inl e \<Rightarrow> False
        | Inr t \<Rightarrow> map Depth (leaves t) = [1, 1, 1, 2, 2, 2, 2]"
    by code_simp
  then obtain t where t: "NewConvTree (corner 0 0) (corner 10 10) 1 1 1 2 0 1 [] [pt (5 / 2) (5 / 2) 2] = Inr t"
    "map Depth (leaves t) = [1, 1, 1, 2, 2, 2, 2]"
    by (auto split: sum.splits)
  have "case NewConvTree2 (corner 0 10) (corner 10 0) 1 1 1 2 0 1 [] [pt (5 / 2) (5 / 2) 2] of
          Inl e \<Rightarrow> False | Inr t \<Rightarrow> \<not> IsLeaf (node t)"
    by code_simp
  then obtain t2 where t2: "NewConvTree2 (corner 0 10) (corner 10 0) 1 1 1 2 0 1 [] [pt (5 / 2) (5 / 2) 2] = Inr t2"
    "\<not> IsLeaf (node t2)"
    by (auto split: sum.splits)
  have "case NewQuadTree (corner 0 0) (corner 10 10) 1 1 1 2 [pt 1 1 2] of
          Inl e \<Rightarrow> False | Inr q \<Rightarrow> q \<noteq> childless_q (node_q q)"
    by code_simp
  then obtain q where q: "NewQuadTree (corner 0 0) (corner 10 10) 1 1 1 2 [pt 1 1 2] = Inr q"
    "q \<noteq> childless_q (node_q q)"
    by (auto split: sum.splits)
  from t t2 q
    depths_from_root [of "corner 0 0" "corner 10 10" 1 1 1 2 0 1 "[]" "[pt (5 / 2) (5 / 2) 2]" t]
    depths_from_root [of "corner 0 10" "corner 10 0" 1 1 1 2 0 1 "[]" "[pt (5 / 2) (5 / 2) 2]" _ t2]
    depths_from_root [of "corner 0 0" "corner 10 10" 1 1 1 2 _ _ _ "[pt 1 1 2]" _ _ q]
  show ?thesis by simp
qed

text \<open>
  The claim as written fails in its first half. \<open>NewConvTree\<close> accepts the rectangle from
  (0, 0) to (1, 1) with minimum lengths 5, and the tree it returns is one leaf, 1 wide and
  1 high. No arithmetic is involved: the rectangle is stored as it was passed.
\<close>

theorem leaf_below_min_size_counterexample:
  "X (corner 0 0) < X (corner 1 1) \<and> Y (corner 0 0) < Y (corner 1 1)
   \<and> (case NewConvTree (corner 0 0) (corner 1 1) 5 5 1 1 0 1 [] [] of
        Inl e \<Rightarrow> False
      | Inr t \<Rightarrow> leaves t = [node t] \<and> width (node t) = 1 \<and> MinXLength (node t) = 5
               \<and> height (node t) = 1 \<and> MinYLength (node t) = 5)"
  by code_simp

section \<open>Weight conservation\<close>

lemma splitBy_unfold:
  "splitBy wide cutAt (ConvTree tree ctl ctr cbl cbr) =
     (case cutAt tree of
        None \<Rightarrow> Inl Panic
      | Some (xRight, yBottom) \<Rightarrow>
          (case growBy wide cutAt (newChild tree (TopLeft tree) (corner xRight yBottom)) of
             Inl e \<Rightarrow> Inl e
           | Inr t1 \<Rightarrow>
          (case growBy wide cutAt (newChild tree (corner xRight (Y (TopLeft tree)))
                        (corner (X (BottomRight tree)) yBottom)) of
             Inl e \<Rightarrow> Inl e
           | Inr t2 \<Rightarrow>
          (case growBy wide cutAt (newChild tree (corner (X (TopLeft tree)) yBottom)
                        (corner xRight (Y (BottomRight tree)))) of
             Inl e \<Rightarrow> Inl e
           | Inr t3 \<Rightarrow>
          (case growBy wide cutAt (newChild tree (corner xRight yBottom) (BottomRight tree)) of
             Inl e \<Rightarrow> Inl e
           | Inr t4 \<Rightarrow>
               Inr (ConvTree (tree\<lparr>IsLeaf := False, Points := []\<rparr>)
                      (Some t1) (Some t2) (Some t3) (Some t4)))))))"
  unfolding growBy_def by (simp only: splitBy.simps Let_def)

declare splitBy.simps [simp del]

lemma levels_childBy:
  "checkSplitBy wide (newChild tree a b) \<Longrightarrow> levels (newChild tree a b) < levels tree"
  by (auto simp: checkSplitBy_def newChild_def levels_def Let_def)

lemma splitBy_InrE:
  assumes "splitBy wide cutAt (ConvTree tree ctl ctr cbl cbr) = Inr t'"
  obtains xRight yBottom t1 t2 t3 t4 where
    "cutAt tree = Some (xRight, yBottom)"
    "growBy wide cutAt (newChild tree (TopLeft tree) (corner xRight yBottom)) = Inr t1"
    "growBy wide cutAt (newChild tree (corner xRight (Y (TopLeft tree))) (corner (X (BottomRight tree)) yBottom)) = Inr t2"
    "growBy wide cutAt (newChild tree (corner (X (TopLeft tree)) yBottom) (corner xRight (Y (BottomRight tree)))) = Inr t3"
    "growBy wide cutAt (newChild tree (corner xRight yBottom) (BottomRight tree)) = Inr t4"
    "t' = ConvTree (tree\<lparr>IsLeaf := False, Points := []\<rparr>) (Some t1) (Some t2) (Some t3) (Some t4)"
  using assms by (auto simp: splitBy_unfold split: option.splits sum.splits)

lemma splitBy_node:
  "splitBy wide cutAt (ConvTree tree ctl ctr cbl cbr) = Inr t' \<Longrightarrow>
     node t' = tree\<lparr>IsLeaf := False, Points := []\<rparr>"
  by (erule splitBy_InrE) simp

text \<open>\<open>split\<close>, \<open>Insert\<close> and \<open>NewConvTree\<close> are the instances with exact arithmetic.\<close>

lemma checkSplit_is_checkSplitBy: "checkSplit = checkSplitBy wideExact"
  by (rule ext) (simp add: checkSplit_def checkSplitBy_def wideExact_def)

lemma grow_is_growBy:
  assumes "\<And>ctl ctr cbl cbr. checkSplit c \<Longrightarrow>
      split (ConvTree c ctl ctr cbl cbr) = splitBy wideExact splitCut (ConvTree c ctl ctr cbl cbr)"
  shows "grow c = growBy wideExact splitCut c"
  using assms by (simp add: grow_def growBy_def checkSplit_is_checkSplitBy childless_def)

lemma split_is_splitBy:
  "split (ConvTree tree ctl ctr cbl cbr) = splitBy wideExact splitCut (ConvTree tree ctl ctr cbl cbr)"
proof (induction "levels tree" arbitrary: tree ctl ctr cbl cbr rule: less_induct)
  case less
  have h: "grow (newChild tree a b) = growBy wideExact splitCut (newChild tree a b)" for a b
    by (rule grow_is_growBy) (rule less.hyps [OF levels_child(1)])
  show ?case unfolding split_unfold splitBy_unfold h by (rule refl)
qed

lemma Insert_is_InsertBy: "Insert t p a = InsertBy wideExact splitCut t p a"
proof (induction t)
  case (ConvTree tree ctl ctr cbl cbr)
  show ?case
  proof (cases "IsLeaf tree")
    case True
    then show ?thesis
      by (simp add: Let_def checkSplit_is_checkSplitBy split_is_splitBy)
  next
    case False
    have "Insert c p a = InsertBy wideExact splitCut c p a"
      if "c \<in> set_option ctl \<union> set_option ctr \<union> set_option cbl \<union> set_option cbr" for c
      using that ConvTree.IH by auto
    with False show ?thesis by (auto split: option.splits)
  qed
qed

lemma NewConvTree_is_NewConvTreeBy:
  "NewConvTree topLeft bottomRight minX minY maxP maxD convNumber gridSize kernel' initPoints =
   NewConvTreeBy wideExact splitCut topLeft bottomRight minX minY maxP maxD convNumber gridSize
     kernel' initPoints"
  by (simp add: NewConvTree_def NewConvTreeBy_def checkSplit_is_checkSplitBy childless_def
      split_is_splitBy Let_def)

lemma four_way:
  assumes "\<forall>p \<in> set ps. (P1 p \<and> \<not> P2 p \<and> \<not> P3 p \<and> \<not> P4 p) \<or> (\<not> P1 p \<and> P2 p \<and> \<not> P3 p \<and> \<not> P4 p)
              \<or> (\<not> P1 p \<and> \<not> P2 p \<and> P3 p \<and> \<not> P4 p) \<or> (\<not> P1 p \<and> \<not> P2 p \<and> \<not> P3 p \<and> P4 p)"
  shows "mset (filter P1 ps) + mset (filter P2 ps) + mset (filter P3 ps) + mset (filter P4 ps) = mset ps"
  using assms by (induction ps) auto

lemma offCuts_mono:
  "offCuts t ps \<Longrightarrow> set qs \<subseteq> set ps \<Longrightarrow> offCuts t qs"
proof (induction t)
  case (ConvTree n a b c d)
  then show ?case
    by (cases "IsLeaf n") (auto simp: list_all_iff split: option.splits)
qed

lemma growBy_corners:
  assumes "growBy wide cutAt c = Inr t"
  shows "TopLeft (node t) = TopLeft c" "BottomRight (node t) = BottomRight c"
  using assms splitBy_node [of wide cutAt c None None None None t]
  by (auto simp: growBy_def childless_def split: if_splits)

lemma newChild_fields [simp]:
  "TopLeft (newChild tree a b) = a" "BottomRight (newChild tree a b) = b"
  "Points (newChild tree a b) = filterSplitPoints tree a b" "IsLeaf (newChild tree a b)"
  by (simp_all add: newChild_def)

lemma filterSplitPoints_covers:
  "filterSplitPoints tree a b = filter (covers (newChild tree a b)) (Points tree)"
  by (simp add: filterSplitPoints_def covers_def [abs_def])

lemma splitBy_tiled:
  assumes "splitBy wide cutAt (ConvTree tree ctl ctr cbl cbr) = Inr t'"
  shows "tiled t' \<and> housed t'"
  using assms
proof (induction "levels tree" arbitrary: tree ctl ctr cbl cbr t' rule: less_induct)
  case less
  from less.prems(1) obtain xRight yBottom t1 t2 t3 t4 where s:
    "cutAt tree = Some (xRight, yBottom)"
    "growBy wide cutAt (newChild tree (TopLeft tree) (corner xRight yBottom)) = Inr t1"
    "growBy wide cutAt (newChild tree (corner xRight (Y (TopLeft tree))) (corner (X (BottomRight tree)) yBottom)) = Inr t2"
    "growBy wide cutAt (newChild tree (corner (X (TopLeft tree)) yBottom) (corner xRight (Y (BottomRight tree)))) = Inr t3"
    "growBy wide cutAt (newChild tree (corner xRight yBottom) (BottomRight tree)) = Inr t4"
    "t' = ConvTree (tree\<lparr>IsLeaf := False, Points := []\<rparr>) (Some t1) (Some t2) (Some t3) (Some t4)"
    by (rule splitBy_InrE)
  have g: "tiled t \<and> housed t" if "growBy wide cutAt (newChild tree a b) = Inr t" for a b t
  proof (cases "checkSplitBy wide (newChild tree a b)")
    case True
    with that have sp: "splitBy wide cutAt (childless (newChild tree a b)) = Inr t" by (simp add: growBy_def)
    from less.hyps [OF levels_childBy [OF True] sp [unfolded childless_def]]
    show ?thesis .
  next
    case False
    with that show ?thesis
      by (auto simp: growBy_def childless_def housed_def filterSplitPoints_covers list_all_iff)
  qed
  have q: "quarters (tree\<lparr>IsLeaf := False, Points := []\<rparr>) (node t1) (node t2) (node t3) (node t4)"
    by (simp add: quarters_def Let_def growBy_corners [OF s(2)] growBy_corners [OF s(3)]
        growBy_corners [OF s(4)] growBy_corners [OF s(5)] corner_def)
  from g [OF s(2)] g [OF s(3)] g [OF s(4)] g [OF s(5)] q
  show ?case by (simp add: s(6) housed_def)
qed

lemma leafPoints_node [simp]:
  "leafPoints (ConvTree n a b c d) =
     (if IsLeaf n then Points n
      else (case a of None \<Rightarrow> [] | Some t \<Rightarrow> leafPoints t) @ (case b of None \<Rightarrow> [] | Some t \<Rightarrow> leafPoints t)
         @ (case c of None \<Rightarrow> [] | Some t \<Rightarrow> leafPoints t) @ (case d of None \<Rightarrow> [] | Some t \<Rightarrow> leafPoints t))"
  by (simp add: leafPoints_def split: option.splits)

lemma housed_node [simp]:
  "housed (ConvTree n a b c d) =
     (if IsLeaf n then list_all (covers n) (Points n)
      else (case a of None \<Rightarrow> True | Some t \<Rightarrow> housed t) \<and> (case b of None \<Rightarrow> True | Some t \<Rightarrow> housed t)
         \<and> (case c of None \<Rightarrow> True | Some t \<Rightarrow> housed t) \<and> (case d of None \<Rightarrow> True | Some t \<Rightarrow> housed t))"
  by (simp add: housed_def split: option.splits)

text \<open>The four closed rectangles around a cut share only the cut lines.\<close>

lemma quarter_filters:
  assumes "list_all (covers tree) (Points tree)"
    and "list_all (\<lambda>p. X p \<noteq> xRight \<and> Y p \<noteq> yBottom) (Points tree)"
  shows "mset (filterSplitPoints tree (TopLeft tree) (corner xRight yBottom))
       + mset (filterSplitPoints tree (corner xRight (Y (TopLeft tree))) (corner (X (BottomRight tree)) yBottom))
       + mset (filterSplitPoints tree (corner (X (TopLeft tree)) yBottom) (corner xRight (Y (BottomRight tree))))
       + mset (filterSplitPoints tree (corner xRight yBottom) (BottomRight tree))
       = mset (Points tree)"
  unfolding filterSplitPoints_def
  by (rule four_way) (use assms in \<open>auto simp: list_all_iff covers_def corner_def\<close>)

lemma splitBy_conserves:
  assumes "splitBy wide cutAt (ConvTree tree ctl ctr cbl cbr) = Inr t'"
    and "list_all (covers tree) (Points tree)" "offCuts t' (Points tree)"
  shows "mset (leafPoints t') = mset (Points tree)"
  using assms
proof (induction "levels tree" arbitrary: tree ctl ctr cbl cbr t' rule: less_induct)
  case less
  from less.prems(1) obtain xRight yBottom t1 t2 t3 t4 where s:
    "cutAt tree = Some (xRight, yBottom)"
    "growBy wide cutAt (newChild tree (TopLeft tree) (corner xRight yBottom)) = Inr t1"
    "growBy wide cutAt (newChild tree (corner xRight (Y (TopLeft tree))) (corner (X (BottomRight tree)) yBottom)) = Inr t2"
    "growBy wide cutAt (newChild tree (corner (X (TopLeft tree)) yBottom) (corner xRight (Y (BottomRight tree)))) = Inr t3"
    "growBy wide cutAt (newChild tree (corner xRight yBottom) (BottomRight tree)) = Inr t4"
    "t' = ConvTree (tree\<lparr>IsLeaf := False, Points := []\<rparr>) (Some t1) (Some t2) (Some t3) (Some t4)"
    by (rule splitBy_InrE)
  have g: "mset (leafPoints t) = mset (filterSplitPoints tree a b)"
    if "growBy wide cutAt (newChild tree a b) = Inr t" "offCuts t (Points tree)" for a b t
  proof (cases "checkSplitBy wide (newChild tree a b)")
    case True
    with that have sp: "splitBy wide cutAt (childless (newChild tree a b)) = Inr t" by (simp add: growBy_def)
    have "offCuts t (Points (newChild tree a b))"
      by (rule offCuts_mono [OF that(2)]) (simp add: filterSplitPoints_def)
    moreover have "list_all (covers (newChild tree a b)) (Points (newChild tree a b))"
      by (simp add: filterSplitPoints_covers list_all_iff)
    ultimately show ?thesis
      using less.hyps [OF levels_childBy [OF True] sp [unfolded childless_def]] by simp
  next
    case False
    with that show ?thesis
      by (auto simp: growBy_def childless_def)
  qed
  from less.prems(3) have o: "offCuts t1 (Points tree)" "offCuts t2 (Points tree)"
    "offCuts t3 (Points tree)" "offCuts t4 (Points tree)"
    "list_all (offCut (tree\<lparr>IsLeaf := False, Points := []\<rparr>) (node t1)) (Points tree)"
    by (simp_all add: s(6))
  from o(5) less.prems(2) have "list_all (\<lambda>p. X p \<noteq> xRight \<and> Y p \<noteq> yBottom) (Points tree)"
    by (auto simp: list_all_iff offCut_def covers_def growBy_corners [OF s(2)] corner_def)
  from quarter_filters [OF less.prems(2) this]
  show ?case
    by (simp add: s(6) g [OF s(2) o(1)] g [OF s(3) o(2)] g [OF s(4) o(3)] g [OF s(5) o(4)]
        add.assoc)
qed

lemma InsertBy_corners:
  "InsertBy wide cutAt t p a = Inr t' \<Longrightarrow>
     TopLeft (node t') = TopLeft (node t) \<and> BottomRight (node t') = BottomRight (node t)
     \<and> (IsLeaf (node t') \<longrightarrow> IsLeaf (node t))"
proof (cases t)
  case (ConvTree n c1 c2 c3 c4)
  assume "InsertBy wide cutAt t p a = Inr t'"
  then show ?thesis
    using splitBy_node [of wide cutAt "n\<lparr>Points := Points n @ [p]\<rparr>" c1 c2 c3 c4 t']
    by (auto simp: ConvTree Let_def split: if_splits option.splits sum.splits)
qed

lemma contains_covers: "contains c p = covers (node c) p"
  by (simp add: contains_def covers_def)

text \<open>The five ways \<open>Insert\<close> leaves a node that is not a leaf.\<close>

lemma InsertBy_internal:
  assumes "InsertBy wide cutAt (ConvTree tree ctl ctr cbl cbr) p a = Inr t'" "\<not> IsLeaf tree"
  obtains
    (first) c1 c1' where "ctl = Some c1" "contains c1 p" "InsertBy wide cutAt c1 p a = Inr c1'"
      "t' = ConvTree tree (Some c1') ctr cbl cbr"
  | (second) c1 c2 c2' where "ctl = Some c1" "\<not> contains c1 p" "ctr = Some c2" "contains c2 p"
      "InsertBy wide cutAt c2 p a = Inr c2'" "t' = ConvTree tree ctl (Some c2') cbl cbr"
  | (third) c1 c2 c3 c3' where "ctl = Some c1" "\<not> contains c1 p" "ctr = Some c2"
      "\<not> contains c2 p" "cbl = Some c3" "contains c3 p"
      "InsertBy wide cutAt c3 p a = Inr c3'" "t' = ConvTree tree ctl ctr (Some c3') cbr"
  | (fourth) c1 c2 c3 c4 c4' where "ctl = Some c1" "\<not> contains c1 p" "ctr = Some c2"
      "\<not> contains c2 p" "cbl = Some c3" "\<not> contains c3 p" "cbr = Some c4" "contains c4 p"
      "InsertBy wide cutAt c4 p a = Inr c4'" "t' = ConvTree tree ctl ctr cbl (Some c4')"
  | (none) c1 c2 c3 c4 where "ctl = Some c1" "\<not> contains c1 p" "ctr = Some c2"
      "\<not> contains c2 p" "cbl = Some c3" "\<not> contains c3 p" "cbr = Some c4" "\<not> contains c4 p"
      "t' = ConvTree tree ctl ctr cbl cbr"
proof -
  from assms have u: "(case ctl of None \<Rightarrow> Inl Panic | Some c1 \<Rightarrow>
           if contains c1 p then
             (case InsertBy wide cutAt c1 p a of
                Inl e \<Rightarrow> Inl e
              | Inr c1' \<Rightarrow> Inr (ConvTree tree (Some c1') ctr cbl cbr))
           else
        (case ctr of None \<Rightarrow> Inl Panic | Some c2 \<Rightarrow>
           if contains c2 p then
             (case InsertBy wide cutAt c2 p a of
                Inl e \<Rightarrow> Inl e
              | Inr c2' \<Rightarrow> Inr (ConvTree tree ctl (Some c2') cbl cbr))
           else
        (case cbl of None \<Rightarrow> Inl Panic | Some c3 \<Rightarrow>
           if contains c3 p then
             (case InsertBy wide cutAt c3 p a of
                Inl e \<Rightarrow> Inl e
              | Inr c3' \<Rightarrow> Inr (ConvTree tree ctl ctr (Some c3') cbr))
           else
        (case cbr of None \<Rightarrow> Inl Panic | Some c4 \<Rightarrow>
           if contains c4 p then
             (case InsertBy wide cutAt c4 p a of
                Inl e \<Rightarrow> Inl e
              | Inr c4' \<Rightarrow> Inr (ConvTree tree ctl ctr cbl (Some c4')))
           else Inr (ConvTree tree ctl ctr cbl cbr))))) = Inr t'"
    by (simp only: InsertBy.simps not_False_eq_True if_True simp_thms)
  show ?thesis
  proof (cases ctl)
    case None
    with u show ?thesis by simp
  next
    case c1: (Some c1)
    show ?thesis
    proof (cases "contains c1 p")
      case True
      with u c1 obtain c1' where "InsertBy wide cutAt c1 p a = Inr c1'" "t' = ConvTree tree (Some c1') ctr cbl cbr"
        by (cases "InsertBy wide cutAt c1 p a") simp_all
      with c1 True show ?thesis by (rule first)
    next
      case n1: False
      show ?thesis
      proof (cases ctr)
        case None
        with u c1 n1 show ?thesis by simp
      next
        case c2: (Some c2)
        show ?thesis
        proof (cases "contains c2 p")
          case True
          with u c1 n1 c2 obtain c2' where "InsertBy wide cutAt c2 p a = Inr c2'"
            "t' = ConvTree tree ctl (Some c2') cbl cbr"
            by (cases "InsertBy wide cutAt c2 p a") simp_all
          with c1 n1 c2 True show ?thesis by (rule second)
        next
          case n2: False
          show ?thesis
          proof (cases cbl)
            case None
            with u c1 n1 c2 n2 show ?thesis by simp
          next
            case c3: (Some c3)
            show ?thesis
            proof (cases "contains c3 p")
              case True
              with u c1 n1 c2 n2 c3 obtain c3' where "InsertBy wide cutAt c3 p a = Inr c3'"
                "t' = ConvTree tree ctl ctr (Some c3') cbr"
                by (cases "InsertBy wide cutAt c3 p a") simp_all
              with c1 n1 c2 n2 c3 True show ?thesis by (rule third)
            next
              case n3: False
              show ?thesis
              proof (cases cbr)
                case None
                with u c1 n1 c2 n2 c3 n3 show ?thesis by simp
              next
                case c4: (Some c4)
                show ?thesis
                proof (cases "contains c4 p")
                  case True
                  with u c1 n1 c2 n2 c3 n3 c4 obtain c4' where "InsertBy wide cutAt c4 p a = Inr c4'"
                    "t' = ConvTree tree ctl ctr cbl (Some c4')"
                    by (cases "InsertBy wide cutAt c4 p a") simp_all
                  with c1 n1 c2 n2 c3 n3 c4 True show ?thesis by (rule fourth)
                next
                  case False
                  with u c1 n1 c2 n2 c3 n3 c4 have "t' = ConvTree tree ctl ctr cbl cbr" by simp
                  with c1 n1 c2 n2 c3 n3 c4 False show ?thesis by (rule none)
                qed
              qed
            qed
          qed
        qed
      qed
    qed
  qed
qed

lemma InsertBy_leaf:
  assumes "InsertBy wide cutAt (ConvTree tree ctl ctr cbl cbr) p a = Inr t'" "IsLeaf tree"
  shows "(a \<and> checkSplitBy wide (tree\<lparr>Points := Points tree @ [p]\<rparr>)
            \<and> splitBy wide cutAt (ConvTree (tree\<lparr>Points := Points tree @ [p]\<rparr>) ctl ctr cbl cbr) = Inr t')
         \<or> (\<not> (a \<and> checkSplitBy wide (tree\<lparr>Points := Points tree @ [p]\<rparr>))
            \<and> t' = ConvTree (tree\<lparr>Points := Points tree @ [p]\<rparr>) ctl ctr cbl cbr)"
  using assms by (auto simp: Let_def split: if_splits)

lemma covers_corners:
  "TopLeft n = TopLeft m \<Longrightarrow> BottomRight n = BottomRight m \<Longrightarrow> covers n = covers m"
  by (simp add: covers_def [abs_def])

lemma quarters_cover:
  assumes "quarters n c1 c2 c3 c4" "covers n p"
  shows "covers c1 p \<or> covers c2 p \<or> covers c3 p \<or> covers c4 p"
proof -
  have "X p \<le> X (BottomRight c1) \<or> X p \<ge> X (BottomRight c1)"
    "Y p \<le> Y (BottomRight c1) \<or> Y p \<ge> Y (BottomRight c1)"
    by auto
  with assms show ?thesis
    unfolding quarters_def covers_def Let_def by simp blast
qed

lemma tiled_internal:
  assumes "tiled (ConvTree n a b c d)" "\<not> IsLeaf n"
  obtains t1 t2 t3 t4 where "a = Some t1" "b = Some t2" "c = Some t3" "d = Some t4"
    "quarters n (node t1) (node t2) (node t3) (node t4)" "tiled t1" "tiled t2" "tiled t3" "tiled t4"
  using assms by (auto split: option.splits)

lemma freshCuts_leaf:
  "IsLeaf n \<Longrightarrow> freshCuts (ConvTree n a b c d) t' p = offCuts t' (Points n @ [p])"
  by (cases t') simp

lemma InsertBy_conserves:
  assumes "InsertBy wide cutAt t p a = Inr t'" "tiled t" "housed t" "covers (node t) p"
    and "freshCuts t t' p"
  shows "mset (leafPoints t') = add_mset p (mset (leafPoints t)) \<and> tiled t' \<and> housed t'"
  using assms
proof (induction t arbitrary: t')
  case (ConvTree tree ctl ctr cbl cbr)
  show ?case
  proof (cases "IsLeaf tree")
    case True
    let ?tree = "tree\<lparr>Points := Points tree @ [p]\<rparr>"
    from ConvTree.prems(3,4) True have h: "list_all (covers ?tree) (Points ?tree)"
      by (simp add: covers_def [abs_def])
    from ConvTree.prems(5) True have o: "offCuts t' (Points ?tree)"
      by (simp add: freshCuts_leaf)
    from InsertBy_leaf [OF ConvTree.prems(1) True] show ?thesis
    proof (elim disjE conjE)
      assume sp: "splitBy wide cutAt (ConvTree ?tree ctl ctr cbl cbr) = Inr t'"
      from splitBy_conserves [OF sp h o] splitBy_tiled [OF sp] True
      show ?thesis by simp
    next
      assume "t' = ConvTree ?tree ctl ctr cbl cbr"
      with True h show ?thesis by simp
    qed
  next
    case False
    from ConvTree.prems(2) False obtain t1 t2 t3 t4 where
      k: "ctl = Some t1" "ctr = Some t2" "cbl = Some t3" "cbr = Some t4"
      and q: "quarters tree (node t1) (node t2) (node t3) (node t4)"
      and ti: "tiled t1" "tiled t2" "tiled t3" "tiled t4"
      by (rule tiled_internal)
    from ConvTree.prems(3) False have ho: "housed t1" "housed t2" "housed t3" "housed t4"
      by (simp_all add: k)
    from ConvTree.prems(1) False show ?thesis
    proof (cases rule: InsertBy_internal)
      case (first c1 c1')
      with k have e: "c1 = t1" by simp
      from ConvTree.prems(5) False have "freshCuts t1 c1' p" by (simp add: first(4) k)
      with ConvTree.IH(1) [of t1 c1'] first(2,3) ti(1) ho(1) k(1)
      have r: "mset (leafPoints c1') = add_mset p (mset (leafPoints t1))" "tiled c1'" "housed c1'"
        by (simp_all add: e contains_covers)
      from InsertBy_corners [OF first(3)] q have "quarters tree (node c1') (node t2) (node t3) (node t4)"
        by (simp add: quarters_def e)
      with r ti ho False show ?thesis by (simp add: first(4) k)
    next
      case (second c1 c2 c2')
      with k have e: "c2 = t2" by simp
      from ConvTree.prems(5) False have "freshCuts t2 c2' p" by (simp add: second(6) k)
      with ConvTree.IH(2) [of t2 c2'] second(4,5) ti(2) ho(2) k(2)
      have r: "mset (leafPoints c2') = add_mset p (mset (leafPoints t2))" "tiled c2'" "housed c2'"
        by (simp_all add: e contains_covers)
      from InsertBy_corners [OF second(5)] q have "quarters tree (node t1) (node c2') (node t3) (node t4)"
        by (simp add: quarters_def e)
      with r ti ho False show ?thesis by (simp add: second(6) k)
    next
      case (third c1 c2 c3 c3')
      with k have e: "c3 = t3" by simp
      from ConvTree.prems(5) False have "freshCuts t3 c3' p" by (simp add: third(8) k)
      with ConvTree.IH(3) [of t3 c3'] third(6,7) ti(3) ho(3) k(3)
      have r: "mset (leafPoints c3') = add_mset p (mset (leafPoints t3))" "tiled c3'" "housed c3'"
        by (simp_all add: e contains_covers)
      from InsertBy_corners [OF third(7)] q have "quarters tree (node t1) (node t2) (node c3') (node t4)"
        by (simp add: quarters_def e)
      with r ti ho False show ?thesis by (simp add: third(8) k)
    next
      case (fourth c1 c2 c3 c4 c4')
      with k have e: "c4 = t4" by simp
      from ConvTree.prems(5) False have "freshCuts t4 c4' p" by (simp add: fourth(10) k)
      with ConvTree.IH(4) [of t4 c4'] fourth(8,9) ti(4) ho(4) k(4)
      have r: "mset (leafPoints c4') = add_mset p (mset (leafPoints t4))" "tiled c4'" "housed c4'"
        by (simp_all add: e contains_covers)
      from InsertBy_corners [OF fourth(9)] q have "quarters tree (node t1) (node t2) (node t3) (node c4')"
        by (simp add: quarters_def e)
      with r ti ho False show ?thesis by (simp add: fourth(10) k)
    next
      case (none c1 c2 c3 c4)
      with k quarters_cover [OF q, of p] ConvTree.prems(4) show ?thesis
        by (simp add: contains_covers)
    qed
  qed
qed

lemma insertAllBy_conserves:
  assumes "insertAllBy wide cutAt t ins = Inr t'" "tiled t" "housed t"
    and "list_all (covers (node t)) (map fst ins)" "freshRun wide cutAt t ins"
  shows "mset (leafPoints t') = mset (leafPoints t) + mset (map fst ins)"
  using assms
proof (induction wide cutAt t ins rule: insertAllBy.induct)
  case (1 wide cutAt t)
  then show ?case by simp
next
  case (2 wide cutAt t point allowSplit rest)
  from "2.prems"(1) obtain t1 where t1: "InsertBy wide cutAt t point allowSplit = Inr t1"
    "insertAllBy wide cutAt t1 rest = Inr t'"
    by (auto split: sum.splits)
  from "2.prems"(5) t1(1) have f: "freshCuts t t1 point" "freshRun wide cutAt t1 rest"
    by simp_all
  from InsertBy_conserves [OF t1(1) "2.prems"(2,3) _ f(1)] "2.prems"(4)
  have c: "mset (leafPoints t1) = add_mset point (mset (leafPoints t))" "tiled t1" "housed t1"
    by simp_all
  from InsertBy_corners [OF t1(1)] have "covers (node t1) = covers (node t)"
    by (intro covers_corners) simp_all
  with "2.prems"(4) have l: "list_all (covers (node t1)) (map fst rest)" by simp
  from "2.IH" [OF t1 c(2,3) l f(2)] c(1) show ?case by simp
qed

lemma NewConvTreeBy_conserves:
  assumes "NewConvTreeBy wide cutAt topLeft bottomRight minX minY maxP maxD convNumber gridSize
      kernel' initPoints = Inr t"
  shows "TopLeft (node t) = topLeft" "BottomRight (node t) = bottomRight" "tiled t"
    "list_all (covers (node t)) initPoints \<Longrightarrow> housed t"
    "list_all (covers (node t)) initPoints \<Longrightarrow> offCuts t initPoints
       \<Longrightarrow> mset (leafPoints t) = mset initPoints"
proof -
  define tree where "tree = \<lparr>IsLeaf = True, MaxPoints = maxP, MaxDepth = maxD, Depth = 0,
                    GridSize = gridSize, ConvNum = convNumber,
                    Kernel = (if \<not> checkKernel kernel' then defaultKernel else kernel'),
                    Points = initPoints, MinXLength = minX, MinYLength = minY,
                    TopLeft = topLeft, BottomRight = bottomRight, BaselineTags = []\<rparr>"
  from assms have t: "(if checkSplitBy wide tree then splitBy wide cutAt (childless tree)
      else Inr (childless tree)) = Inr t"
    by (simp add: NewConvTreeBy_def Let_def tree_def split: if_splits)
  have f: "TopLeft tree = topLeft" "BottomRight tree = bottomRight" "Points tree = initPoints"
    "IsLeaf tree"
    by (simp_all add: tree_def)
  show c: "TopLeft (node t) = topLeft" "BottomRight (node t) = bottomRight"
    using t splitBy_node [of wide cutAt tree None None None None t] f
    by (auto simp: childless_def split: if_splits)
  then have e: "covers (node t) = covers tree" by (intro covers_corners) (simp_all add: f)
  show "tiled t"
    using t splitBy_tiled [of wide cutAt tree None None None None t] f
    by (auto simp: childless_def split: if_splits)
  show "housed t" if "list_all (covers (node t)) initPoints"
    using t splitBy_tiled [of wide cutAt tree None None None None t] f that
    by (auto simp: childless_def e split: if_splits)
  show "mset (leafPoints t) = mset initPoints"
    if "list_all (covers (node t)) initPoints" "offCuts t initPoints"
    using t splitBy_conserves [of wide cutAt tree None None None None t] f that
    by (auto simp: childless_def e split: if_splits)
qed

lemma totalWeight_mset:
  "mset ps = mset qs \<Longrightarrow> totalWeight ps = totalWeight qs"
proof -
  assume "mset ps = mset qs"
  then have "image_mset Weight (mset ps) = image_mset Weight (mset qs)" by simp
  then have "sum_mset (mset (map Weight ps)) = sum_mset (mset (map Weight qs))" by simp
  then show ?thesis by (simp only: totalWeight_def sum_mset_sum_list)
qed

lemma convBy_conserves:
  assumes "NewConvTreeBy wide cutAt topLeft bottomRight minX minY maxP maxD convNumber gridSize
      kernel' initPoints = Inr t0"
    and "insertAllBy wide cutAt t0 ins = Inr t"
    and "list_all (covers (node t0)) (initPoints @ map fst ins)"
    and "offCuts t0 initPoints" "freshRun wide cutAt t0 ins"
  shows "mset (leafPoints t) = mset (initPoints @ map fst ins)"
proof -
  from assms(3) have l: "list_all (covers (node t0)) initPoints" "list_all (covers (node t0)) (map fst ins)"
    by simp_all
  from NewConvTreeBy_conserves [OF assms(1)] l assms(4)
  have c: "tiled t0" "housed t0" "mset (leafPoints t0) = mset initPoints" by simp_all
  from insertAllBy_conserves [OF assms(2) c(1,2) l(2) assms(5)] c(3) show ?thesis by simp
qed

subsection \<open>The second source\<close>

lemma split2By_unfold:
  "split2By wide cutAt (ConvTree tree ctl ctr cbl cbr) =
     (case cutAt tree of
        None \<Rightarrow> Inl Panic
      | Some (xRight, yBottom) \<Rightarrow>
          (case grow2By wide cutAt tree (newChild2 tree (TopLeft tree) (corner xRight yBottom)) of
             Inl e \<Rightarrow> Inl e
           | Inr t1 \<Rightarrow>
          (case grow2By wide cutAt tree (newChild2 tree (corner xRight (Y (TopLeft tree)))
                        (corner (X (BottomRight tree)) yBottom)) of
             Inl e \<Rightarrow> Inl e
           | Inr t2 \<Rightarrow>
          (case grow2By wide cutAt tree (newChild2 tree (corner (X (TopLeft tree)) yBottom)
                        (corner xRight (Y (BottomRight tree)))) of
             Inl e \<Rightarrow> Inl e
           | Inr t3 \<Rightarrow>
          (case grow2By wide cutAt tree (newChild2 tree (corner xRight yBottom) (BottomRight tree)) of
             Inl e \<Rightarrow> Inl e
           | Inr t4 \<Rightarrow>
               Inr (ConvTree (tree\<lparr>IsLeaf := False, Points := []\<rparr>)
                      (Some t1) (Some t2) (Some t3) (Some t4)))))))"
  unfolding grow2By_def by (simp only: split2By.simps Let_def)

declare split2By.simps [simp del]

lemma levels_child2By:
  "checkSplitBy wide (newChild2 tree a b) \<Longrightarrow> levels (newChild2 tree a b) < levels tree"
  by (auto simp: checkSplitBy_def newChild2_def levels_def Let_def)

lemma split2By_InrE:
  assumes "split2By wide cutAt (ConvTree tree ctl ctr cbl cbr) = Inr t'"
  obtains xRight yBottom t1 t2 t3 t4 where
    "cutAt tree = Some (xRight, yBottom)"
    "grow2By wide cutAt tree (newChild2 tree (TopLeft tree) (corner xRight yBottom)) = Inr t1"
    "grow2By wide cutAt tree (newChild2 tree (corner xRight (Y (TopLeft tree))) (corner (X (BottomRight tree)) yBottom)) = Inr t2"
    "grow2By wide cutAt tree (newChild2 tree (corner (X (TopLeft tree)) yBottom) (corner xRight (Y (BottomRight tree)))) = Inr t3"
    "grow2By wide cutAt tree (newChild2 tree (corner xRight yBottom) (BottomRight tree)) = Inr t4"
    "t' = ConvTree (tree\<lparr>IsLeaf := False, Points := []\<rparr>) (Some t1) (Some t2) (Some t3) (Some t4)"
  using assms by (auto simp: split2By_unfold split: option.splits sum.splits)

lemma split2By_node:
  "split2By wide cutAt (ConvTree tree ctl ctr cbl cbr) = Inr t' \<Longrightarrow>
     node t' = tree\<lparr>IsLeaf := False, Points := []\<rparr>"
  by (erule split2By_InrE) simp

lemma checkSplit2_is_checkSplitBy: "checkSplit2 = checkSplitBy wideExact2"
  by (rule ext) (simp add: checkSplit2_def checkSplitBy_def wideExact2_def)

lemma grow2_is_grow2By:
  assumes "\<And>ctl ctr cbl cbr. checkSplit2 c \<Longrightarrow>
      split2 (ConvTree c ctl ctr cbl cbr) = split2By wideExact2 splitCut2 (ConvTree c ctl ctr cbl cbr)"
  shows "grow2 tree c = grow2By wideExact2 splitCut2 tree c"
  using assms by (simp add: grow2_def grow2By_def checkSplit2_is_checkSplitBy childless_def)

lemma split2_is_split2By:
  "split2 (ConvTree tree ctl ctr cbl cbr) = split2By wideExact2 splitCut2 (ConvTree tree ctl ctr cbl cbr)"
proof (induction "levels tree" arbitrary: tree ctl ctr cbl cbr rule: less_induct)
  case less
  have h: "grow2 tree (newChild2 tree a b) = grow2By wideExact2 splitCut2 tree (newChild2 tree a b)" for a b
    by (rule grow2_is_grow2By) (rule less.hyps [OF levels_child(2)])
  show ?case unfolding split2_unfold split2By_unfold h by (rule refl)
qed

lemma Insert2_is_Insert2By: "Insert2 t p a = Insert2By wideExact2 splitCut2 t p a"
proof (induction t)
  case (ConvTree tree ctl ctr cbl cbr)
  show ?case
  proof (cases "IsLeaf tree")
    case True
    then show ?thesis
      by (simp add: Let_def checkSplit2_is_checkSplitBy split2_is_split2By)
  next
    case False
    have "Insert2 c p a = Insert2By wideExact2 splitCut2 c p a"
      if "c \<in> set_option ctl \<union> set_option ctr \<union> set_option cbl \<union> set_option cbr" for c
      using that ConvTree.IH by auto
    with False show ?thesis by (auto split: option.splits)
  qed
qed

lemma NewConvTree2_is_NewConvTree2By:
  "NewConvTree2 topLeft bottomRight minX minY maxP maxD convNumber gridSize kernel' initPoints =
   NewConvTree2By wideExact2 splitCut2 topLeft bottomRight minX minY maxP maxD convNumber gridSize
     kernel' initPoints"
  by (simp add: NewConvTree2_def NewConvTree2By_def checkSplit2_is_checkSplitBy childless_def
      split2_is_split2By Let_def)

lemma offCuts2_mono:
  "offCuts2 t ps \<Longrightarrow> set qs \<subseteq> set ps \<Longrightarrow> offCuts2 t qs"
proof (induction t)
  case (ConvTree n a b c d)
  then show ?case
    by (cases "IsLeaf n") (auto simp: list_all_iff split: option.splits)
qed

lemma covers2_getBaseline [simp]:
  "covers2 (getBaseline c) = covers2 c" "covers2 (c\<lparr>BaselineTags := ts\<rparr>) = covers2 c"
  by (simp_all add: covers2_def [abs_def])

lemma grow2By_corners:
  assumes "grow2By wide cutAt tree c = Inr t"
  shows "TopLeft (node t) = TopLeft c" "BottomRight (node t) = BottomRight c"
  using assms split2By_node [of wide cutAt c None None None None t]
  by (auto simp: grow2By_def seeded_def childless_def split: if_splits)

lemma newChild2_fields [simp]:
  "TopLeft (newChild2 tree a b) = a" "BottomRight (newChild2 tree a b) = b"
  "Points (newChild2 tree a b) = filterSplitPoints2 tree a b" "IsLeaf (newChild2 tree a b)"
  by (simp_all add: newChild2_def)

lemma filterSplitPoints2_covers2:
  "filterSplitPoints2 tree a b = filter (covers2 (newChild2 tree a b)) (Points tree)"
  by (simp add: filterSplitPoints2_def covers2_def [abs_def])

lemma split2By_tiled:
  assumes "split2By wide cutAt (ConvTree tree ctl ctr cbl cbr) = Inr t'"
  shows "tiled t' \<and> housed2 t'"
  using assms
proof (induction "levels tree" arbitrary: tree ctl ctr cbl cbr t' rule: less_induct)
  case less
  from less.prems(1) obtain xRight yBottom t1 t2 t3 t4 where s:
    "cutAt tree = Some (xRight, yBottom)"
    "grow2By wide cutAt tree (newChild2 tree (TopLeft tree) (corner xRight yBottom)) = Inr t1"
    "grow2By wide cutAt tree (newChild2 tree (corner xRight (Y (TopLeft tree))) (corner (X (BottomRight tree)) yBottom)) = Inr t2"
    "grow2By wide cutAt tree (newChild2 tree (corner (X (TopLeft tree)) yBottom) (corner xRight (Y (BottomRight tree)))) = Inr t3"
    "grow2By wide cutAt tree (newChild2 tree (corner xRight yBottom) (BottomRight tree)) = Inr t4"
    "t' = ConvTree (tree\<lparr>IsLeaf := False, Points := []\<rparr>) (Some t1) (Some t2) (Some t3) (Some t4)"
    by (rule split2By_InrE)
  have g: "tiled t \<and> housed2 t" if "grow2By wide cutAt tree (newChild2 tree a b) = Inr t" for a b t
  proof (cases "checkSplitBy wide (newChild2 tree a b)")
    case True
    with that have sp: "split2By wide cutAt (childless (newChild2 tree a b)) = Inr t" by (simp add: grow2By_def)
    from less.hyps [OF levels_child2By [OF True] sp [unfolded childless_def]]
    show ?thesis .
  next
    case False
    with that show ?thesis
      by (auto simp: grow2By_def seeded_def childless_def housed2_def filterSplitPoints2_covers2 list_all_iff)
  qed
  have q: "quarters (tree\<lparr>IsLeaf := False, Points := []\<rparr>) (node t1) (node t2) (node t3) (node t4)"
    by (simp add: quarters_def Let_def grow2By_corners [OF s(2)] grow2By_corners [OF s(3)]
        grow2By_corners [OF s(4)] grow2By_corners [OF s(5)] corner_def)
  from g [OF s(2)] g [OF s(3)] g [OF s(4)] g [OF s(5)] q
  show ?case by (simp add: s(6) housed2_def)
qed

lemma housed2_node [simp]:
  "housed2 (ConvTree n a b c d) =
     (if IsLeaf n then list_all (covers2 n) (Points n)
      else (case a of None \<Rightarrow> True | Some t \<Rightarrow> housed2 t) \<and> (case b of None \<Rightarrow> True | Some t \<Rightarrow> housed2 t)
         \<and> (case c of None \<Rightarrow> True | Some t \<Rightarrow> housed2 t) \<and> (case d of None \<Rightarrow> True | Some t \<Rightarrow> housed2 t))"
  by (simp add: housed2_def split: option.splits)

lemma quarter_filters2:
  assumes "list_all (covers2 tree) (Points tree)"
    and "list_all (\<lambda>p. X p \<noteq> xRight \<and> Y p \<noteq> yBottom) (Points tree)"
  shows "mset (filterSplitPoints2 tree (TopLeft tree) (corner xRight yBottom))
       + mset (filterSplitPoints2 tree (corner xRight (Y (TopLeft tree))) (corner (X (BottomRight tree)) yBottom))
       + mset (filterSplitPoints2 tree (corner (X (TopLeft tree)) yBottom) (corner xRight (Y (BottomRight tree))))
       + mset (filterSplitPoints2 tree (corner xRight yBottom) (BottomRight tree))
       = mset (Points tree)"
  unfolding filterSplitPoints2_def
  by (rule four_way) (use assms in \<open>auto simp: list_all_iff covers2_def corner_def\<close>)

lemma split2By_conserves:
  assumes "split2By wide cutAt (ConvTree tree ctl ctr cbl cbr) = Inr t'"
    and "list_all (covers2 tree) (Points tree)" "offCuts2 t' (Points tree)"
  shows "mset (leafPoints t') = mset (Points tree)"
  using assms
proof (induction "levels tree" arbitrary: tree ctl ctr cbl cbr t' rule: less_induct)
  case less
  from less.prems(1) obtain xRight yBottom t1 t2 t3 t4 where s:
    "cutAt tree = Some (xRight, yBottom)"
    "grow2By wide cutAt tree (newChild2 tree (TopLeft tree) (corner xRight yBottom)) = Inr t1"
    "grow2By wide cutAt tree (newChild2 tree (corner xRight (Y (TopLeft tree))) (corner (X (BottomRight tree)) yBottom)) = Inr t2"
    "grow2By wide cutAt tree (newChild2 tree (corner (X (TopLeft tree)) yBottom) (corner xRight (Y (BottomRight tree)))) = Inr t3"
    "grow2By wide cutAt tree (newChild2 tree (corner xRight yBottom) (BottomRight tree)) = Inr t4"
    "t' = ConvTree (tree\<lparr>IsLeaf := False, Points := []\<rparr>) (Some t1) (Some t2) (Some t3) (Some t4)"
    by (rule split2By_InrE)
  have g: "mset (leafPoints t) = mset (filterSplitPoints2 tree a b)"
    if "grow2By wide cutAt tree (newChild2 tree a b) = Inr t" "offCuts2 t (Points tree)" for a b t
  proof (cases "checkSplitBy wide (newChild2 tree a b)")
    case True
    with that have sp: "split2By wide cutAt (childless (newChild2 tree a b)) = Inr t" by (simp add: grow2By_def)
    have "offCuts2 t (Points (newChild2 tree a b))"
      by (rule offCuts2_mono [OF that(2)]) (simp add: filterSplitPoints2_def)
    moreover have "list_all (covers2 (newChild2 tree a b)) (Points (newChild2 tree a b))"
      by (simp add: filterSplitPoints2_covers2 list_all_iff)
    ultimately show ?thesis
      using less.hyps [OF levels_child2By [OF True] sp [unfolded childless_def]] by simp
  next
    case False
    with that show ?thesis
      by (auto simp: grow2By_def seeded_def childless_def)
  qed
  from less.prems(3) have o: "offCuts2 t1 (Points tree)" "offCuts2 t2 (Points tree)"
    "offCuts2 t3 (Points tree)" "offCuts2 t4 (Points tree)"
    "list_all (offCut2 (tree\<lparr>IsLeaf := False, Points := []\<rparr>) (node t1)) (Points tree)"
    by (simp_all add: s(6))
  from o(5) less.prems(2) have "list_all (\<lambda>p. X p \<noteq> xRight \<and> Y p \<noteq> yBottom) (Points tree)"
    by (auto simp: list_all_iff offCut2_def covers2_def grow2By_corners [OF s(2)] corner_def)
  from quarter_filters2 [OF less.prems(2) this]
  show ?case
    by (simp add: s(6) g [OF s(2) o(1)] g [OF s(3) o(2)] g [OF s(4) o(3)] g [OF s(5) o(4)]
        add.assoc)
qed

lemma Insert2By_corners:
  "Insert2By wide cutAt t p a = Inr t' \<Longrightarrow>
     TopLeft (node t') = TopLeft (node t) \<and> BottomRight (node t') = BottomRight (node t)
     \<and> (IsLeaf (node t') \<longrightarrow> IsLeaf (node t))"
proof (cases t)
  case (ConvTree n c1 c2 c3 c4)
  assume "Insert2By wide cutAt t p a = Inr t'"
  then show ?thesis
    using split2By_node [of wide cutAt "n\<lparr>Points := Points n @ [p]\<rparr>" c1 c2 c3 c4 t']
    by (auto simp: ConvTree Let_def split: if_splits option.splits sum.splits)
qed

lemma contains2_covers2: "contains2 c p = covers2 (node c) p"
  by (auto simp: contains2_def covers2_def)

lemma Insert2By_internal:
  assumes "Insert2By wide cutAt (ConvTree tree ctl ctr cbl cbr) p a = Inr t'" "\<not> IsLeaf tree"
  obtains
    (first) c1 c1' where "ctl = Some c1" "contains2 c1 p" "Insert2By wide cutAt c1 p a = Inr c1'"
      "t' = ConvTree tree (Some c1') ctr cbl cbr"
  | (second) c1 c2 c2' where "ctl = Some c1" "\<not> contains2 c1 p" "ctr = Some c2" "contains2 c2 p"
      "Insert2By wide cutAt c2 p a = Inr c2'" "t' = ConvTree tree ctl (Some c2') cbl cbr"
  | (third) c1 c2 c3 c3' where "ctl = Some c1" "\<not> contains2 c1 p" "ctr = Some c2"
      "\<not> contains2 c2 p" "cbl = Some c3" "contains2 c3 p"
      "Insert2By wide cutAt c3 p a = Inr c3'" "t' = ConvTree tree ctl ctr (Some c3') cbr"
  | (fourth) c1 c2 c3 c4 c4' where "ctl = Some c1" "\<not> contains2 c1 p" "ctr = Some c2"
      "\<not> contains2 c2 p" "cbl = Some c3" "\<not> contains2 c3 p" "cbr = Some c4" "contains2 c4 p"
      "Insert2By wide cutAt c4 p a = Inr c4'" "t' = ConvTree tree ctl ctr cbl (Some c4')"
  | (none) c1 c2 c3 c4 where "ctl = Some c1" "\<not> contains2 c1 p" "ctr = Some c2"
      "\<not> contains2 c2 p" "cbl = Some c3" "\<not> contains2 c3 p" "cbr = Some c4" "\<not> contains2 c4 p"
      "t' = ConvTree tree ctl ctr cbl cbr"
proof -
  from assms have u: "(case ctl of None \<Rightarrow> Inl Panic | Some c1 \<Rightarrow>
           if contains2 c1 p then
             (case Insert2By wide cutAt c1 p a of
                Inl e \<Rightarrow> Inl e
              | Inr c1' \<Rightarrow> Inr (ConvTree tree (Some c1') ctr cbl cbr))
           else
        (case ctr of None \<Rightarrow> Inl Panic | Some c2 \<Rightarrow>
           if contains2 c2 p then
             (case Insert2By wide cutAt c2 p a of
                Inl e \<Rightarrow> Inl e
              | Inr c2' \<Rightarrow> Inr (ConvTree tree ctl (Some c2') cbl cbr))
           else
        (case cbl of None \<Rightarrow> Inl Panic | Some c3 \<Rightarrow>
           if contains2 c3 p then
             (case Insert2By wide cutAt c3 p a of
                Inl e \<Rightarrow> Inl e
              | Inr c3' \<Rightarrow> Inr (ConvTree tree ctl ctr (Some c3') cbr))
           else
        (case cbr of None \<Rightarrow> Inl Panic | Some c4 \<Rightarrow>
           if contains2 c4 p then
             (case Insert2By wide cutAt c4 p a of
                Inl e \<Rightarrow> Inl e
              | Inr c4' \<Rightarrow> Inr (ConvTree tree ctl ctr cbl (Some c4')))
           else Inr (ConvTree tree ctl ctr cbl cbr))))) = Inr t'"
    by (simp only: Insert2By.simps not_False_eq_True if_True simp_thms)
  show ?thesis
  proof (cases ctl)
    case None
    with u show ?thesis by simp
  next
    case c1: (Some c1)
    show ?thesis
    proof (cases "contains2 c1 p")
      case True
      with u c1 obtain c1' where "Insert2By wide cutAt c1 p a = Inr c1'" "t' = ConvTree tree (Some c1') ctr cbl cbr"
        by (cases "Insert2By wide cutAt c1 p a") simp_all
      with c1 True show ?thesis by (rule first)
    next
      case n1: False
      show ?thesis
      proof (cases ctr)
        case None
        with u c1 n1 show ?thesis by simp
      next
        case c2: (Some c2)
        show ?thesis
        proof (cases "contains2 c2 p")
          case True
          with u c1 n1 c2 obtain c2' where "Insert2By wide cutAt c2 p a = Inr c2'"
            "t' = ConvTree tree ctl (Some c2') cbl cbr"
            by (cases "Insert2By wide cutAt c2 p a") simp_all
          with c1 n1 c2 True show ?thesis by (rule second)
        next
          case n2: False
          show ?thesis
          proof (cases cbl)
            case None
            with u c1 n1 c2 n2 show ?thesis by simp
          next
            case c3: (Some c3)
            show ?thesis
            proof (cases "contains2 c3 p")
              case True
              with u c1 n1 c2 n2 c3 obtain c3' where "Insert2By wide cutAt c3 p a = Inr c3'"
                "t' = ConvTree tree ctl ctr (Some c3') cbr"
                by (cases "Insert2By wide cutAt c3 p a") simp_all
              with c1 n1 c2 n2 c3 True show ?thesis by (rule third)
            next
              case n3: False
              show ?thesis
              proof (cases cbr)
                case None
                with u c1 n1 c2 n2 c3 n3 show ?thesis by simp
              next
                case c4: (Some c4)
                show ?thesis
                proof (cases "contains2 c4 p")
                  case True
                  with u c1 n1 c2 n2 c3 n3 c4 obtain c4' where "Insert2By wide cutAt c4 p a = Inr c4'"
                    "t' = ConvTree tree ctl ctr cbl (Some c4')"
                    by (cases "Insert2By wide cutAt c4 p a") simp_all
                  with c1 n1 c2 n2 c3 n3 c4 True show ?thesis by (rule fourth)
                next
                  case False
                  with u c1 n1 c2 n2 c3 n3 c4 have "t' = ConvTree tree ctl ctr cbl cbr" by simp
                  with c1 n1 c2 n2 c3 n3 c4 False show ?thesis by (rule none)
                qed
              qed
            qed
          qed
        qed
      qed
    qed
  qed
qed

lemma Insert2By_leaf:
  assumes "Insert2By wide cutAt (ConvTree tree ctl ctr cbl cbr) p a = Inr t'" "IsLeaf tree"
  shows "(a \<and> checkSplitBy wide (tree\<lparr>Points := Points tree @ [p]\<rparr>)
            \<and> split2By wide cutAt (ConvTree (tree\<lparr>Points := Points tree @ [p]\<rparr>) ctl ctr cbl cbr) = Inr t')
         \<or> (\<not> (a \<and> checkSplitBy wide (tree\<lparr>Points := Points tree @ [p]\<rparr>))
            \<and> t' = ConvTree (tree\<lparr>Points := Points tree @ [p]\<rparr>) ctl ctr cbl cbr)"
  using assms by (auto simp: Let_def split: if_splits)

lemma covers2_corners:
  "TopLeft n = TopLeft m \<Longrightarrow> BottomRight n = BottomRight m \<Longrightarrow> covers2 n = covers2 m"
  by (simp add: covers2_def [abs_def])

lemma quarters_cover2:
  assumes "quarters n c1 c2 c3 c4" "covers2 n p"
  shows "covers2 c1 p \<or> covers2 c2 p \<or> covers2 c3 p \<or> covers2 c4 p"
proof -
  have "X p \<le> X (BottomRight c1) \<or> X p \<ge> X (BottomRight c1)"
    "Y p \<le> Y (BottomRight c1) \<or> Y p \<ge> Y (BottomRight c1)"
    by auto
  with assms show ?thesis
    unfolding quarters_def covers2_def Let_def by simp blast
qed

lemma freshCuts2_leaf:
  "IsLeaf n \<Longrightarrow> freshCuts2 (ConvTree n a b c d) t' p = offCuts2 t' (Points n @ [p])"
  by (cases t') simp

lemma Insert2By_conserves:
  assumes "Insert2By wide cutAt t p a = Inr t'" "tiled t" "housed2 t" "covers2 (node t) p"
    and "freshCuts2 t t' p"
  shows "mset (leafPoints t') = add_mset p (mset (leafPoints t)) \<and> tiled t' \<and> housed2 t'"
  using assms
proof (induction t arbitrary: t')
  case (ConvTree tree ctl ctr cbl cbr)
  show ?case
  proof (cases "IsLeaf tree")
    case True
    let ?tree = "tree\<lparr>Points := Points tree @ [p]\<rparr>"
    from ConvTree.prems(3,4) True have h: "list_all (covers2 ?tree) (Points ?tree)"
      by (simp add: covers2_def [abs_def])
    from ConvTree.prems(5) True have o: "offCuts2 t' (Points ?tree)"
      by (simp add: freshCuts2_leaf)
    from Insert2By_leaf [OF ConvTree.prems(1) True] show ?thesis
    proof (elim disjE conjE)
      assume sp: "split2By wide cutAt (ConvTree ?tree ctl ctr cbl cbr) = Inr t'"
      from split2By_conserves [OF sp h o] split2By_tiled [OF sp] True
      show ?thesis by simp
    next
      assume "t' = ConvTree ?tree ctl ctr cbl cbr"
      with True h show ?thesis by simp
    qed
  next
    case False
    from ConvTree.prems(2) False obtain t1 t2 t3 t4 where
      k: "ctl = Some t1" "ctr = Some t2" "cbl = Some t3" "cbr = Some t4"
      and q: "quarters tree (node t1) (node t2) (node t3) (node t4)"
      and ti: "tiled t1" "tiled t2" "tiled t3" "tiled t4"
      by (rule tiled_internal)
    from ConvTree.prems(3) False have ho: "housed2 t1" "housed2 t2" "housed2 t3" "housed2 t4"
      by (simp_all add: k)
    from ConvTree.prems(1) False show ?thesis
    proof (cases rule: Insert2By_internal)
      case (first c1 c1')
      with k have e: "c1 = t1" by simp
      from ConvTree.prems(5) False have "freshCuts2 t1 c1' p" by (simp add: first(4) k)
      with ConvTree.IH(1) [of t1 c1'] first(2,3) ti(1) ho(1) k(1)
      have r: "mset (leafPoints c1') = add_mset p (mset (leafPoints t1))" "tiled c1'" "housed2 c1'"
        by (simp_all add: e contains2_covers2)
      from Insert2By_corners [OF first(3)] q have "quarters tree (node c1') (node t2) (node t3) (node t4)"
        by (simp add: quarters_def e)
      with r ti ho False show ?thesis by (simp add: first(4) k)
    next
      case (second c1 c2 c2')
      with k have e: "c2 = t2" by simp
      from ConvTree.prems(5) False have "freshCuts2 t2 c2' p" by (simp add: second(6) k)
      with ConvTree.IH(2) [of t2 c2'] second(4,5) ti(2) ho(2) k(2)
      have r: "mset (leafPoints c2') = add_mset p (mset (leafPoints t2))" "tiled c2'" "housed2 c2'"
        by (simp_all add: e contains2_covers2)
      from Insert2By_corners [OF second(5)] q have "quarters tree (node t1) (node c2') (node t3) (node t4)"
        by (simp add: quarters_def e)
      with r ti ho False show ?thesis by (simp add: second(6) k)
    next
      case (third c1 c2 c3 c3')
      with k have e: "c3 = t3" by simp
      from ConvTree.prems(5) False have "freshCuts2 t3 c3' p" by (simp add: third(8) k)
      with ConvTree.IH(3) [of t3 c3'] third(6,7) ti(3) ho(3) k(3)
      have r: "mset (leafPoints c3') = add_mset p (mset (leafPoints t3))" "tiled c3'" "housed2 c3'"
        by (simp_all add: e contains2_covers2)
      from Insert2By_corners [OF third(7)] q have "quarters tree (node t1) (node t2) (node c3') (node t4)"
        by (simp add: quarters_def e)
      with r ti ho False show ?thesis by (simp add: third(8) k)
    next
      case (fourth c1 c2 c3 c4 c4')
      with k have e: "c4 = t4" by simp
      from ConvTree.prems(5) False have "freshCuts2 t4 c4' p" by (simp add: fourth(10) k)
      with ConvTree.IH(4) [of t4 c4'] fourth(8,9) ti(4) ho(4) k(4)
      have r: "mset (leafPoints c4') = add_mset p (mset (leafPoints t4))" "tiled c4'" "housed2 c4'"
        by (simp_all add: e contains2_covers2)
      from Insert2By_corners [OF fourth(9)] q have "quarters tree (node t1) (node t2) (node t3) (node c4')"
        by (simp add: quarters_def e)
      with r ti ho False show ?thesis by (simp add: fourth(10) k)
    next
      case (none c1 c2 c3 c4)
      with k quarters_cover2 [OF q, of p] ConvTree.prems(4) show ?thesis
        by (simp add: contains2_covers2)
    qed
  qed
qed

lemma insertAll2By_conserves:
  assumes "insertAll2By wide cutAt t ins = Inr t'" "tiled t" "housed2 t"
    and "list_all (covers2 (node t)) (map fst ins)" "freshRun2 wide cutAt t ins"
  shows "mset (leafPoints t') = mset (leafPoints t) + mset (map fst ins)"
  using assms
proof (induction wide cutAt t ins rule: insertAll2By.induct)
  case (1 wide cutAt t)
  then show ?case by simp
next
  case (2 wide cutAt t point allowSplit rest)
  from "2.prems"(1) obtain t1 where t1: "Insert2By wide cutAt t point allowSplit = Inr t1"
    "insertAll2By wide cutAt t1 rest = Inr t'"
    by (auto split: sum.splits)
  from "2.prems"(5) t1(1) have f: "freshCuts2 t t1 point" "freshRun2 wide cutAt t1 rest"
    by simp_all
  from Insert2By_conserves [OF t1(1) "2.prems"(2,3) _ f(1)] "2.prems"(4)
  have c: "mset (leafPoints t1) = add_mset point (mset (leafPoints t))" "tiled t1" "housed2 t1"
    by simp_all
  from Insert2By_corners [OF t1(1)] have "covers2 (node t1) = covers2 (node t)"
    by (intro covers2_corners) simp_all
  with "2.prems"(4) have l: "list_all (covers2 (node t1)) (map fst rest)" by simp
  from "2.IH" [OF t1 c(2,3) l f(2)] c(1) show ?case by simp
qed

lemma NewConvTree2By_conserves:
  assumes "NewConvTree2By wide cutAt topLeft bottomRight minX minY maxP maxD convNumber gridSize
      kernel' initPoints = Inr t"
  shows "TopLeft (node t) = topLeft" "BottomRight (node t) = bottomRight" "tiled t"
    "list_all (covers2 (node t)) initPoints \<Longrightarrow> housed2 t"
    "list_all (covers2 (node t)) initPoints \<Longrightarrow> offCuts2 t initPoints
       \<Longrightarrow> mset (leafPoints t) = mset initPoints"
proof -
  define tree where "tree = \<lparr>IsLeaf = True, MaxPoints = maxP, MaxDepth = maxD, Depth = 0,
                    GridSize = gridSize, ConvNum = convNumber,
                    Kernel = (if \<not> checkKernel kernel' then defaultKernel else kernel'),
                    Points = initPoints, MinXLength = minX, MinYLength = minY,
                    TopLeft = topLeft, BottomRight = bottomRight, BaselineTags = []\<rparr>"
  from assms have t: "(if checkSplitBy wide tree then split2By wide cutAt (childless tree)
      else Inr (childless (getBaseline tree))) = Inr t"
    by (simp add: NewConvTree2By_def Let_def tree_def split: if_splits)
  have f: "TopLeft tree = topLeft" "BottomRight tree = bottomRight" "Points tree = initPoints"
    "IsLeaf tree"
    by (simp_all add: tree_def)
  show c: "TopLeft (node t) = topLeft" "BottomRight (node t) = bottomRight"
    using t split2By_node [of wide cutAt tree None None None None t] f
    by (auto simp: childless_def split: if_splits)
  then have e: "covers2 (node t) = covers2 tree" by (intro covers2_corners) (simp_all add: f)
  show "tiled t"
    using t split2By_tiled [of wide cutAt tree None None None None t] f
    by (auto simp: childless_def split: if_splits)
  show "housed2 t" if "list_all (covers2 (node t)) initPoints"
    using t split2By_tiled [of wide cutAt tree None None None None t] f that
    by (auto simp: childless_def e split: if_splits)
  show "mset (leafPoints t) = mset initPoints"
    if "list_all (covers2 (node t)) initPoints" "offCuts2 t initPoints"
    using t split2By_conserves [of wide cutAt tree None None None None t] f that
    by (auto simp: childless_def e split: if_splits)
qed

lemma conv2By_conserves:
  assumes "NewConvTree2By wide cutAt topLeft bottomRight minX minY maxP maxD convNumber gridSize
      kernel' initPoints = Inr t0"
    and "insertAll2By wide cutAt t0 ins = Inr t"
    and "list_all (covers2 (node t0)) (initPoints @ map fst ins)"
    and "offCuts2 t0 initPoints" "freshRun2 wide cutAt t0 ins"
  shows "mset (leafPoints t) = mset (initPoints @ map fst ins)"
proof -
  from assms(3) have l: "list_all (covers2 (node t0)) initPoints" "list_all (covers2 (node t0)) (map fst ins)"
    by simp_all
  from NewConvTree2By_conserves [OF assms(1)] l assms(4)
  have c: "tiled t0" "housed2 t0" "mset (leafPoints t0) = mset initPoints" by simp_all
  from insertAll2By_conserves [OF assms(2) c(1,2) l(2) assms(5)] c(3) show ?thesis by simp
qed

subsection \<open>Create, then insert\<close>

text \<open>
  C1, as the code has it. Take a tree that \<open>NewConvTree\<close> returns and a sequence of
  \<open>Insert\<close> calls that all return, whatever the size tests answer and wherever the cuts
  fall. If every initial and every inserted point lies in the closed rectangle of the
  root, and no point that a node holds when it is split lies on the cut lines of that
  split (\<open>x = xRight\<close> or \<open>y = yBottom\<close>), then the leaves of the final tree hold exactly the
  initial and the inserted points, each as often as it was given, and so the same total
  weight. A point inserted later onto a cut line that is already there goes to the first
  child whose rectangle contains it and is kept once. The same holds for the second
  source.
\<close>

theorem points_conserved:
  "(NewConvTreeBy wide cutAt topLeft bottomRight minX minY maxP maxD convNumber gridSize kernel'
        initPoints = Inr t0
      \<and> insertAllBy wide cutAt t0 ins = Inr t
      \<and> list_all (covers (node t0)) (initPoints @ map fst ins)
      \<and> offCuts t0 initPoints \<and> freshRun wide cutAt t0 ins
    \<longrightarrow> TopLeft (node t0) = topLeft \<and> BottomRight (node t0) = bottomRight
        \<and> mset (leafPoints t) = mset (initPoints @ map fst ins)
        \<and> totalWeight (leafPoints t) = totalWeight initPoints + totalWeight (map fst ins))
   \<and> (NewConvTree2By wide cutAt topLeft bottomRight minX minY maxP maxD convNumber gridSize kernel'
        initPoints = Inr t0'
      \<and> insertAll2By wide cutAt t0' ins = Inr t'
      \<and> list_all (covers2 (node t0')) (initPoints @ map fst ins)
      \<and> offCuts2 t0' initPoints \<and> freshRun2 wide cutAt t0' ins
    \<longrightarrow> TopLeft (node t0') = topLeft \<and> BottomRight (node t0') = bottomRight
        \<and> mset (leafPoints t') = mset (initPoints @ map fst ins)
        \<and> totalWeight (leafPoints t') = totalWeight initPoints + totalWeight (map fst ins))"
proof (intro conjI impI; elim conjE)
  assume a: "NewConvTreeBy wide cutAt topLeft bottomRight minX minY maxP maxD convNumber gridSize
      kernel' initPoints = Inr t0"
    "insertAllBy wide cutAt t0 ins = Inr t" "list_all (covers (node t0)) (initPoints @ map fst ins)"
    "offCuts t0 initPoints" "freshRun wide cutAt t0 ins"
  show "TopLeft (node t0) = topLeft" "BottomRight (node t0) = bottomRight"
    using NewConvTreeBy_conserves(1,2) [OF a(1)] by simp_all
  show "mset (leafPoints t) = mset (initPoints @ map fst ins)"
    using a by (rule convBy_conserves)
  from totalWeight_mset [OF this]
  show "totalWeight (leafPoints t) = totalWeight initPoints + totalWeight (map fst ins)"
    by (simp add: totalWeight_def)
next
  assume a: "NewConvTree2By wide cutAt topLeft bottomRight minX minY maxP maxD convNumber gridSize
      kernel' initPoints = Inr t0'"
    "insertAll2By wide cutAt t0' ins = Inr t'" "list_all (covers2 (node t0')) (initPoints @ map fst ins)"
    "offCuts2 t0' initPoints" "freshRun2 wide cutAt t0' ins"
  show "TopLeft (node t0') = topLeft" "BottomRight (node t0') = bottomRight"
    using NewConvTree2By_conserves(1,2) [OF a(1)] by simp_all
  show "mset (leafPoints t') = mset (initPoints @ map fst ins)"
    using a by (rule conv2By_conserves)
  from totalWeight_mset [OF this]
  show "totalWeight (leafPoints t') = totalWeight initPoints + totalWeight (map fst ins)"
    by (simp add: totalWeight_def)
qed

text \<open>
  A run with exact arithmetic: the first insertion splits the root at (1, 1) and its
  bottom-right child at (2, 2); the last point is inserted onto the cut line \<open>x = 1\<close> of the
  root and lands in one leaf.
\<close>

theorem points_conserved_witness:
  "(\<exists>t0 t. NewConvTreeBy wideExact splitCut (corner 0 0) (corner 10 10) 1 1 1 2 0 1 []
         [pt (1 / 2) (1 / 2) 1] = Inr t0
       \<and> insertAllBy wideExact splitCut t0
           [(pt (5 / 2) (5 / 2) 2, True), (pt (15 / 2) (1 / 2) 3, False), (pt 1 5 1, False)] = Inr t
       \<and> map Depth (leaves t) = [1, 1, 1, 2, 2, 2, 2]
       \<and> mset (leafPoints t)
           = mset [pt (1 / 2) (1 / 2) 1, pt (5 / 2) (5 / 2) 2, pt (15 / 2) (1 / 2) 3, pt 1 5 1]
       \<and> totalWeight (leafPoints t) = 7)
   \<and> (\<exists>t0 t. NewConvTree2By wideExact2 splitCut2 (corner 0 10) (corner 10 0) 1 1 1 2 0 1 []
         [pt (1 / 2) (1 / 2) 1] = Inr t0
       \<and> insertAll2By wideExact2 splitCut2 t0
           [(pt (5 / 2) (5 / 2) 2, True), (pt (15 / 2) (1 / 2) 3, False), (pt 1 5 1, False)] = Inr t
       \<and> map Depth (leaves t) = [1, 2, 2, 2, 2, 1, 1]
       \<and> mset (leafPoints t)
           = mset [pt (1 / 2) (1 / 2) 1, pt (5 / 2) (5 / 2) 2, pt (15 / 2) (1 / 2) 3, pt 1 5 1]
       \<and> totalWeight (leafPoints t) = 7)"
proof -
  let ?ps = "[pt (1 / 2) (1 / 2) 1]"
  let ?ins = "[(pt (5 / 2) (5 / 2) 2, True), (pt (15 / 2) (1 / 2) 3, False), (pt 1 5 1, False)]"
  have "case NewConvTreeBy wideExact splitCut (corner 0 0) (corner 10 10) 1 1 1 2 0 1 [] ?ps of
          Inl e \<Rightarrow> False
        | Inr t0 \<Rightarrow> (case insertAllBy wideExact splitCut t0 ?ins of
            Inl e \<Rightarrow> False
          | Inr t \<Rightarrow> map Depth (leaves t) = [1, 1, 1, 2, 2, 2, 2]
                    \<and> list_all (covers (node t0)) (?ps @ map fst ?ins)
                    \<and> offCuts t0 ?ps \<and> freshRun wideExact splitCut t0 ?ins)"
    by code_simp
  then obtain t0 t where 1:
    "NewConvTreeBy wideExact splitCut (corner 0 0) (corner 10 10) 1 1 1 2 0 1 [] ?ps = Inr t0"
    "insertAllBy wideExact splitCut t0 ?ins = Inr t" "map Depth (leaves t) = [1, 1, 1, 2, 2, 2, 2]"
    "list_all (covers (node t0)) (?ps @ map fst ?ins)" "offCuts t0 ?ps"
    "freshRun wideExact splitCut t0 ?ins"
    by (auto split: sum.splits)
  have "case NewConvTree2By wideExact2 splitCut2 (corner 0 10) (corner 10 0) 1 1 1 2 0 1 [] ?ps of
          Inl e \<Rightarrow> False
        | Inr t0 \<Rightarrow> (case insertAll2By wideExact2 splitCut2 t0 ?ins of
            Inl e \<Rightarrow> False
          | Inr t \<Rightarrow> map Depth (leaves t) = [1, 2, 2, 2, 2, 1, 1]
                    \<and> list_all (covers2 (node t0)) (?ps @ map fst ?ins)
                    \<and> offCuts2 t0 ?ps \<and> freshRun2 wideExact2 splitCut2 t0 ?ins)"
    by code_simp
  then obtain t0' t' where 2:
    "NewConvTree2By wideExact2 splitCut2 (corner 0 10) (corner 10 0) 1 1 1 2 0 1 [] ?ps = Inr t0'"
    "insertAll2By wideExact2 splitCut2 t0' ?ins = Inr t'" "map Depth (leaves t') = [1, 2, 2, 2, 2, 1, 1]"
    "list_all (covers2 (node t0')) (?ps @ map fst ?ins)" "offCuts2 t0' ?ps"
    "freshRun2 wideExact2 splitCut2 t0' ?ins"
    by (auto split: sum.splits)
  have w: "totalWeight ?ps + totalWeight (map fst ?ins) = 7"
    by (simp add: totalWeight_def pt_def)
  from points_conserved [of wideExact splitCut "corner 0 0" "corner 10 10" 1 1 1 2 0 1 "[]" ?ps t0 ?ins t] 1
  have c1: "mset (leafPoints t) = mset (?ps @ map fst ?ins)"
    "totalWeight (leafPoints t) = totalWeight ?ps + totalWeight (map fst ?ins)"
    by blast+
  from points_conserved [of wideExact2 splitCut2 "corner 0 10" "corner 10 0" 1 1 1 2 0 1 "[]" ?ps _ ?ins _ t0' t'] 2
  have c2: "mset (leafPoints t') = mset (?ps @ map fst ?ins)"
    "totalWeight (leafPoints t') = totalWeight ?ps + totalWeight (map fst ?ins)"
    by blast+
  from 1(1-3) c1 [unfolded w]
  have "\<exists>t0 t. NewConvTreeBy wideExact splitCut (corner 0 0) (corner 10 10) 1 1 1 2 0 1 [] ?ps = Inr t0
       \<and> insertAllBy wideExact splitCut t0 ?ins = Inr t
       \<and> map Depth (leaves t) = [1, 1, 1, 2, 2, 2, 2]
       \<and> mset (leafPoints t)
           = mset [pt (1 / 2) (1 / 2) 1, pt (5 / 2) (5 / 2) 2, pt (15 / 2) (1 / 2) 3, pt 1 5 1]
       \<and> totalWeight (leafPoints t) = 7"
    by (intro exI [of _ t0] exI [of _ t]) simp
  moreover from 2(1-3) c2 [unfolded w]
  have "\<exists>t0 t. NewConvTree2By wideExact2 splitCut2 (corner 0 10) (corner 10 0) 1 1 1 2 0 1 [] ?ps = Inr t0
       \<and> insertAll2By wideExact2 splitCut2 t0 ?ins = Inr t
       \<and> map Depth (leaves t) = [1, 2, 2, 2, 2, 1, 1]
       \<and> mset (leafPoints t)
           = mset [pt (1 / 2) (1 / 2) 1, pt (5 / 2) (5 / 2) 2, pt (15 / 2) (1 / 2) 3, pt 1 5 1]
       \<and> totalWeight (leafPoints t) = 7"
    by (intro exI [of _ t0'] exI [of _ t']) simp
  ultimately show ?thesis by (rule conjI)
qed

text \<open>
  The claim as written fails in both sources at a point on a cut line, and at a point
  outside the rectangle. With minimum lengths 1 on the rectangle from 0 to 10 the first
  cut is at (1, 1): the point (1, 1) of weight 2 passes the closed test of all four
  children, and the leaves then weigh 8. The point (20, 20) passes none, and the leaves
  weigh 0. Every number of these runs is a small integer, so the arithmetic is exact.
\<close>

theorem weight_conserved_counterexample:
  "totalWeight [pt 1 1 2] = 2
   \<and> (case NewConvTree (corner 0 0) (corner 10 10) 1 1 1 1 0 1 [] [pt 1 1 2] of
        Inl e \<Rightarrow> False
      | Inr t \<Rightarrow> map Points (leaves t) = [[pt 1 1 2], [pt 1 1 2], [pt 1 1 2], [pt 1 1 2]]
               \<and> totalWeight (leafPoints t) = 8)
   \<and> (case NewConvTree2 (corner 0 10) (corner 10 0) 1 1 1 1 0 1 [] [pt 1 1 2] of
        Inl e \<Rightarrow> False
      | Inr t \<Rightarrow> map Points (leaves t) = [[pt 1 1 2], [pt 1 1 2], [pt 1 1 2], [pt 1 1 2]]
               \<and> totalWeight (leafPoints t) = 8)
   \<and> (case NewConvTree (corner 0 0) (corner 10 10) 1 1 1 1 0 1 [] [pt 20 20 2] of
        Inl e \<Rightarrow> False
      | Inr t \<Rightarrow> map Points (leaves t) = [[], [], [], []] \<and> totalWeight (leafPoints t) = 0)"
  by code_simp

end
